theory Spec2Isabelle
  imports Complex_Main "HOL-Library.Word" "HOL-Library.Sublist"
begin

section \<open>JavaScript strings\<close>

text \<open>
  A JavaScript string is a sequence of UTF-16 code units, and the regular expressions of
  the program (none has the \<open>u\<close> flag) work on code units. A string literal of the
  source is written \<open>str ''...''\<close>. File contents are the strings that
  \<open>readFileSync(path, "utf-8")\<close> returns and \<open>writeFileSync\<close> takes: the
  UTF-8 coding on disk is not part of the model.
\<close>

type_synonym code_unit = "16 word"
type_synonym jsstring = "code_unit list"

definition str :: "string \<Rightarrow> jsstring" where
  "str s = map of_char s"

text \<open>ECMAScript \<open>LineTerminator\<close>: LF, CR, LS (U+2028), PS (U+2029).\<close>

definition isLineTerminator :: "code_unit \<Rightarrow> bool" where
  "isLineTerminator c \<longleftrightarrow> c = 0x000A \<or> c = 0x000D \<or> c = 0x2028 \<or> c = 0x2029"

text \<open>ECMAScript \<open>WhiteSpace\<close> (the code units of category Zs included).\<close>

definition isWhiteSpace :: "code_unit \<Rightarrow> bool" where
  "isWhiteSpace c \<longleftrightarrow>
     c = 0x0009 \<or> c = 0x000B \<or> c = 0x000C \<or> c = 0x0020 \<or> c = 0x00A0 \<or> c = 0x1680 \<or>
     (0x2000 \<le> c \<and> c \<le> 0x200A) \<or> c = 0x202F \<or> c = 0x205F \<or> c = 0x3000 \<or> c = 0xFEFF"

text \<open>\<open>String.prototype.trim\<close>: white space and line terminators go, at both ends.\<close>

definition trim :: "jsstring \<Rightarrow> jsstring" where
  "trim s =
     rev (dropWhile (\<lambda>c. isWhiteSpace c \<or> isLineTerminator c)
       (rev (dropWhile (\<lambda>c. isWhiteSpace c \<or> isLineTerminator c) s)))"

text \<open>\<open>s.endsWith(t)\<close>.\<close>

definition endsWith :: "jsstring \<Rightarrow> jsstring \<Rightarrow> bool" where
  "endsWith s t = suffix t s"

text \<open>\<open>s.charAt(i)\<close>: the empty string when \<open>i\<close> is out of range.\<close>

definition charAt :: "jsstring \<Rightarrow> int \<Rightarrow> jsstring" where
  "charAt s i = (if 0 \<le> i \<and> i < int (length s) then [s ! nat i] else [])"

definition isDigit :: "code_unit \<Rightarrow> bool" where
  "isDigit c \<longleftrightarrow> 0x30 \<le> c \<and> c \<le> 0x39"

definition isAsciiLetter :: "code_unit \<Rightarrow> bool" where
  "isAsciiLetter c \<longleftrightarrow> (0x41 \<le> c \<and> c \<le> 0x5A) \<or> (0x61 \<le> c \<and> c \<le> 0x7A)"

definition digitVal :: "code_unit \<Rightarrow> nat" where
  "digitVal c = unat c - 48"

section \<open>Replacement templates\<close>

text \<open>
  ECMAScript \<open>GetSubstitution\<close>, which \<open>String.prototype.replace\<close> applies to a
  replacement string: \<open>$$\<close> is a dollar sign, \<open>$&\<close> the matched text, \<open>$`\<close> the text
  preceding the match, \<open>$'\<close> the text following it, \<open>$n\<close> and \<open>$nn\<close> the capture of
  that number when the expression has that many groups (a two-digit number beyond the
  groups is read as one digit and a literal digit); every other dollar sign stands for
  itself. None of the program's expressions has a named group, so \<open>$<\<close> is literal.
\<close>

definition capture :: "jsstring list \<Rightarrow> nat \<Rightarrow> jsstring \<Rightarrow> jsstring" where
  "capture caps index ref =
     (if 1 \<le> index \<and> index \<le> length caps then caps ! (index - 1) else ref)"

fun getSubstitution ::
  "jsstring \<Rightarrow> jsstring \<Rightarrow> jsstring \<Rightarrow> jsstring list \<Rightarrow> jsstring \<Rightarrow> jsstring" where
  "getSubstitution matched preceding following caps [] = []"
| "getSubstitution matched preceding following caps [c] = [c]"
| "getSubstitution matched preceding following caps (c # d # t) =
     (if c \<noteq> 0x24 then c # getSubstitution matched preceding following caps (d # t)
      else if d = 0x24 then 0x24 # getSubstitution matched preceding following caps t
      else if d = 0x26 then matched @ getSubstitution matched preceding following caps t
      else if d = 0x60 then preceding @ getSubstitution matched preceding following caps t
      else if d = 0x27 then following @ getSubstitution matched preceding following caps t
      else if isDigit d then
        (case t of
           [] \<Rightarrow> capture caps (digitVal d) [c, d]
         | e # t' \<Rightarrow>
             if isDigit e \<and> digitVal d * 10 + digitVal e \<le> length caps
             then capture caps (digitVal d * 10 + digitVal e) [c, d, e] @
                  getSubstitution matched preceding following caps t'
             else capture caps (digitVal d) [c, d] @
                  getSubstitution matched preceding following caps t)
      else 0x24 # getSubstitution matched preceding following caps (d # t))"

text \<open>
  \<open>s.replace(/c/g, template)\<close> for an expression that is one literal code unit
  \<open>ch\<close>: every occurrence is replaced, left to right, by the expansion of the template
  at that match.
\<close>

primrec replaceEach :: "code_unit \<Rightarrow> jsstring \<Rightarrow> jsstring \<Rightarrow> jsstring \<Rightarrow> jsstring" where
  "replaceEach ch template preceding [] = []"
| "replaceEach ch template preceding (c # cs) =
     (if c = ch then getSubstitution [c] preceding cs [] template else [c]) @
     replaceEach ch template (preceding @ [c]) cs"

section \<open>Connection-string validation\<close>

text \<open>
  \<open>validateConnectionString(url)\<close> tests \<open>/^postgres(ql)?:\/\/.+/\<close>. Without the
  \<open>m\<close> flag \<open>^\<close> holds at index 0 only; the optional group is tried with
  \<open>ql\<close> first and without it next; \<open>.+\<close> needs one code unit that is not a line
  terminator (what follows it is free, the expression has no \<open>$\<close>).
\<close>

definition dotPlus :: "jsstring \<Rightarrow> bool" where
  "dotPlus s = (case s of [] \<Rightarrow> False | c # _ \<Rightarrow> \<not> isLineTerminator c)"

definition schemeSeparator :: "jsstring \<Rightarrow> bool" where
  "schemeSeparator s = (prefix (str ''://'') s \<and> dotPlus (drop 3 s))"

definition validateConnectionString :: "jsstring \<Rightarrow> bool" where
  "validateConnectionString url =
     (prefix (str ''postgres'') url \<and>
      ((prefix (str ''ql'') (drop 8 url) \<and> schemeSeparator (drop 10 url)) \<or>
       schemeSeparator (drop 8 url)))"

section \<open>The environment file\<close>

subsection \<open>The expressions built from the variable name\<close>

text \<open>
  \<open>writeDatabaseUrl\<close> builds \<open>new RegExp(`^${variableName}=.*$`, "m")\<close> and
  \<open>getEnvConfig\<close> builds \<open>new RegExp(`^${variableName}=`, "m")\<close>. The name is
  one of the six fixed choices or a custom name that the prompt accepts only when it
  matches \<open>/^[A-Z_][A-Z0-9_]*$/i\<close>, so every code unit of the pattern
  \<open>p = variableName + "="\<close> is a literal. The model covers these names.

  \<open>execAssign p bol s\<close> is the search of \<open>^p.*$\<close> in what is left of the input,
  position by position from the left; \<open>bol\<close> says whether \<open>^\<close> holds at the
  current position (with the \<open>m\<close> flag: at index 0 and right after a line terminator).
  At a match it returns the text before the match, the matched text and the text after
  it. The greedy \<open>.*\<close> takes every code unit up to the next line terminator, where
  \<open>$\<close> holds, so no backtracking happens. \<open>testAssign\<close> is \<open>test\<close> for
  \<open>^p\<close>.
\<close>

primrec execAssign ::
  "jsstring \<Rightarrow> bool \<Rightarrow> jsstring \<Rightarrow> (jsstring \<times> jsstring \<times> jsstring) option" where
  "execAssign p bol [] = (if bol \<and> p = [] then Some ([], [], []) else None)"
| "execAssign p bol (c # cs) =
     (if bol \<and> prefix p (c # cs)
      then Some ([], p @ takeWhile (\<lambda>x. \<not> isLineTerminator x) (drop (length p) (c # cs)),
                 dropWhile (\<lambda>x. \<not> isLineTerminator x) (drop (length p) (c # cs)))
      else map_option (\<lambda>(b, m, a). (c # b, m, a)) (execAssign p (isLineTerminator c) cs))"

primrec testAssign :: "jsstring \<Rightarrow> bool \<Rightarrow> jsstring \<Rightarrow> bool" where
  "testAssign p bol [] = (bol \<and> p = [])"
| "testAssign p bol (c # cs) =
     ((bol \<and> prefix p (c # cs)) \<or> testAssign p (isLineTerminator c) cs)"

text \<open>
  The \<open>validate\<close> callback of the custom-name prompt: the name is not empty, not
  blank, and matches \<open>/^[A-Z_][A-Z0-9_]*$/i\<close> (with the \<open>i\<close> flag and no
  \<open>u\<close> flag the class \<open>[A-Z]\<close> takes the ASCII letters of both cases and nothing
  else).
\<close>

definition isNameStart :: "code_unit \<Rightarrow> bool" where
  "isNameStart c \<longleftrightarrow> isAsciiLetter c \<or> c = 0x5F"

definition isNameChar :: "code_unit \<Rightarrow> bool" where
  "isNameChar c \<longleftrightarrow> isAsciiLetter c \<or> isDigit c \<or> c = 0x5F"

definition validVariableName :: "jsstring \<Rightarrow> bool" where
  "validVariableName name =
     (name \<noteq> [] \<and> length (trim name) \<noteq> 0 \<and>
      (case name of [] \<Rightarrow> False | c # cs \<Rightarrow> isNameStart c \<and> list_all isNameChar cs))"

subsection \<open>Files\<close>

text \<open>
  The file system maps a path, as the program passes it to \<open>fs\<close>, to the text of the
  regular file there. \<open>existsSync\<close> is \<open>fs path \<noteq> None\<close>. Reading and writing a
  file of the map succeed; directories and permissions are not modelled, except for the
  \<open>copyFileSync\<close> of \<open>initializeEnvFile\<close>, whose failure the source catches.
\<close>

type_synonym filesystem = "jsstring \<rightharpoonup> jsstring"

record EnvConfig =
  envPath :: jsstring
  variableName :: jsstring

definition fileContent :: "filesystem \<Rightarrow> jsstring \<Rightarrow> jsstring" where
  "fileContent fs path = (case fs path of None \<Rightarrow> [] | Some c \<Rightarrow> c)"

text \<open>
  The body of \<open>writeDatabaseUrl\<close> between the read and the write: \<open>envContent\<close> is
  the text read (empty when there is no file), \<open>escapedUrl\<close> is
  \<open>databaseUrl.replace(/\$/g, "$$$$")\<close>. When the expression matches, the first match
  is replaced by the expansion of the template \<open>`${variableName}=${escapedUrl}`\<close>;
  otherwise the text gets a newline if it is not empty and does not end in one, and
  then the comment and the assignment, with \<open>escapedUrl\<close> as it is.
\<close>

definition upsertContent :: "jsstring \<Rightarrow> jsstring \<Rightarrow> jsstring \<Rightarrow> jsstring" where
  "upsertContent name databaseUrl envContent =
     (let escapedUrl = replaceEach 0x24 (str ''$$$$'') [] databaseUrl in
      case execAssign (name @ str ''='') True envContent of
        Some (preceding, matched, following) \<Rightarrow>
          preceding @
          getSubstitution matched preceding following [] (name @ str ''='' @ escapedUrl) @
          following
      | None \<Rightarrow>
          (if length envContent > 0 \<and> \<not> endsWith envContent (str ''\<newline>'')
           then envContent @ str ''\<newline>'' else envContent) @
          str ''\<newline># Database Configuration\<newline>'' @ name @ str ''='' @ escapedUrl @
          str ''\<newline>'')"

text \<open>
  \<open>writeDatabaseUrl(databaseUrl, config)\<close>: when the file exists its text goes to
  \<open>`${envPath}.backup`\<close> first; the new text is then written to \<open>envPath\<close>.
\<close>

definition writeDatabaseUrl :: "jsstring \<Rightarrow> EnvConfig \<Rightarrow> filesystem \<Rightarrow> filesystem" where
  "writeDatabaseUrl databaseUrl config fs =
     (case fs (envPath config) of
        Some envContent \<Rightarrow>
          (fs(envPath config @ str ''.backup'' \<mapsto> envContent))
            (envPath config \<mapsto> upsertContent (variableName config) databaseUrl envContent)
      | None \<Rightarrow>
          fs(envPath config \<mapsto> upsertContent (variableName config) databaseUrl []))"

text \<open>
  \<open>initializeEnvFile()\<close>. \<open>permitted\<close> says whether the operating system lets the
  copy succeed; the source catches a failed copy and goes on.
\<close>

definition copyFileSync ::
  "bool \<Rightarrow> jsstring \<Rightarrow> jsstring \<Rightarrow> filesystem \<Rightarrow> filesystem option" where
  "copyFileSync permitted src dest fs =
     (case fs src of
        None \<Rightarrow> None
      | Some content \<Rightarrow> if permitted then Some (fs(dest \<mapsto> content)) else None)"

definition initializeEnvFile :: "bool \<Rightarrow> filesystem \<Rightarrow> filesystem" where
  "initializeEnvFile permitted fs =
     (if fs (str ''.env.example'') \<noteq> None \<and> \<not> fs (str ''.env'') \<noteq> None
      then (case copyFileSync permitted (str ''.env.example'') (str ''.env'') fs of
              Some fs' \<Rightarrow> fs'
            | None \<Rightarrow> fs)
      else fs)"

subsection \<open>Showing the connection string\<close>

text \<open>
  \<open>showDatabaseUrl\<close> prints
  \<open>databaseUrl.replace(/(:\/\/)([^:]+):([^@]+)@/, "$1$2:***@")\<close>. At a position the
  expression needs \<open>://\<close>, then the longest run of code units other than \<open>:\<close>,
  which must not be empty and must end before a \<open>:\<close>, then the longest run of code
  units other than \<open>@\<close>, which must not be empty and must end before an \<open>@\<close>. A
  shorter run never helps (the code unit after it is in the class, not the delimiter),
  so the match at a position is unique. The first position that matches is taken.
\<close>

definition matchMaskAt :: "jsstring \<Rightarrow> (jsstring list \<times> jsstring \<times> jsstring) option" where
  "matchMaskAt s =
     (if prefix (str ''://'') s then
        (let r = drop 3 s;
             user = takeWhile (\<lambda>c. c \<noteq> 0x3A) r;
             r1 = dropWhile (\<lambda>c. c \<noteq> 0x3A) r
         in if user \<noteq> [] \<and> r1 \<noteq> [] then
              (let r2 = tl r1;
                   password = takeWhile (\<lambda>c. c \<noteq> 0x40) r2;
                   r3 = dropWhile (\<lambda>c. c \<noteq> 0x40) r2
               in if password \<noteq> [] \<and> r3 \<noteq> []
                  then Some ([str ''://'', user, password],
                             str ''://'' @ user @ [0x3A] @ password @ [0x40], tl r3)
                  else None)
            else None)
      else None)"

primrec execMask ::
  "jsstring \<Rightarrow> (jsstring \<times> jsstring list \<times> jsstring \<times> jsstring) option" where
  "execMask [] = None"
| "execMask (c # cs) =
     (case matchMaskAt (c # cs) of
        Some (caps, matched, following) \<Rightarrow> Some ([], caps, matched, following)
      | None \<Rightarrow> map_option (\<lambda>(b, caps, m, a). (c # b, caps, m, a)) (execMask cs))"

definition maskedUrl :: "jsstring \<Rightarrow> jsstring" where
  "maskedUrl databaseUrl =
     (case execMask databaseUrl of
        None \<Rightarrow> databaseUrl
      | Some (preceding, caps, matched, following) \<Rightarrow>
          preceding @
          getSubstitution matched preceding following caps (str ''$1$2:***@'') @
          following)"

text \<open>
  The two lines \<open>showDatabaseUrl\<close> prints (the colours of \<open>chalk\<close> left out); the
  first starts with a newline and U+2705.
\<close>

definition showDatabaseUrl :: "jsstring \<Rightarrow> jsstring \<Rightarrow> jsstring list" where
  "showDatabaseUrl databaseUrl name =
     [[0x000A, 0x2705] @ str '' Database configured successfully!'',
      str ''\<newline>'' @ name @ str ''='' @ maskedUrl databaseUrl]"

subsection \<open>The configuration dialogue\<close>

text \<open>
  The answers of the user to the prompts of \<open>getEnvConfig\<close>: the two selections, the
  two custom inputs (what the input prompt returns, that is, a value its \<open>validate\<close>
  callback accepted) and the answer to the overwrite confirmation. \<open>process.exit(n)\<close>
  is the outcome \<open>Exited n\<close>, which every caller passes on; \<open>throw\<close> is
  \<open>Thrown\<close>. \<open>resolve\<close> stands for \<open>resolve(process.cwd(), envPath)\<close>.
\<close>

datatype 'a outcome = Returned 'a | Exited int | Thrown jsstring

record answers =
  envPathChoice :: jsstring
  customPath :: jsstring
  variableNameChoice :: jsstring
  customName :: jsstring
  shouldOverwrite :: bool

definition chosenPath :: "answers \<Rightarrow> jsstring" where
  "chosenPath ans =
     (if envPathChoice ans = str ''custom'' then customPath ans else envPathChoice ans)"

definition chosenName :: "answers \<Rightarrow> jsstring" where
  "chosenName ans =
     (if variableNameChoice ans = str ''custom'' then customName ans
      else variableNameChoice ans)"

definition getEnvConfig ::
  "(jsstring \<Rightarrow> jsstring) \<Rightarrow> answers \<Rightarrow> filesystem \<Rightarrow> EnvConfig outcome" where
  "getEnvConfig resolve ans fs =
     (let resolvedPath = resolve (chosenPath ans);
          config = \<lparr>envPath = resolvedPath, variableName = trim (chosenName ans)\<rparr>
      in case fs resolvedPath of
           Some existingContent \<Rightarrow>
             if testAssign (chosenName ans @ str ''='') True existingContent
             then (if \<not> shouldOverwrite ans then Exited 0 else Returned config)
             else Returned config
         | None \<Rightarrow> Returned config)"

text \<open>
  \<open>setupEnvironment(databaseUrl)\<close>: the outcome, the file system afterwards and the
  lines \<open>showDatabaseUrl\<close> printed.
\<close>

definition setupEnvironment ::
  "(jsstring \<Rightarrow> jsstring) \<Rightarrow> answers \<Rightarrow> jsstring \<Rightarrow> filesystem \<Rightarrow>
   unit outcome \<times> filesystem \<times> jsstring list" where
  "setupEnvironment resolve ans databaseUrl fs =
     (if \<not> validateConnectionString databaseUrl
      then (Thrown (str ''Invalid connection string''), fs, [])
      else (case getEnvConfig resolve ans fs of
              Returned config \<Rightarrow>
                (Returned (), writeDatabaseUrl databaseUrl config fs,
                 showDatabaseUrl databaseUrl (variableName config))
            | Exited code \<Rightarrow> (Exited code, fs, [])
            | Thrown e \<Rightarrow> (Thrown e, fs, [])))"

section \<open>Waiting for a provider\<close>

text \<open>
  The loop of \<open>createRenderDatabase\<close>. The provider is a function from the number of
  status checks made so far to the result of the next one: \<open>render services get\<close>
  exits with a status other than 0, or its output makes \<open>JSON.parse\<close> (or the access
  to \<open>status.status\<close>) throw, which the enclosing \<open>try\<close> turns into exit code 1,
  or it parses and has a status. Every iteration sleeps five seconds (time is not
  modelled), makes one check and adds one to \<open>attempts\<close>. The result is how the loop
  ended and how many checks it made.
\<close>

datatype status_result = NonZeroExit | Unparsable | Status jsstring

datatype poll_outcome = Ready | TimedOut | ParseFailed

definition maxAttempts :: nat where
  "maxAttempts = 60"

function renderPoll ::
  "(nat \<Rightarrow> status_result) \<Rightarrow> bool \<Rightarrow> nat \<Rightarrow> nat \<Rightarrow> poll_outcome \<times> nat" where
  "renderPoll statusCheck ready attempts calls =
     (if \<not> ready \<and> attempts < maxAttempts then
        (case statusCheck calls of
           Unparsable \<Rightarrow> (ParseFailed, calls + 1)
         | NonZeroExit \<Rightarrow> renderPoll statusCheck ready (attempts + 1) (calls + 1)
         | Status s \<Rightarrow>
             renderPoll statusCheck (if s = str ''available'' then True else ready)
               (attempts + 1) (calls + 1))
      else (if \<not> ready then TimedOut else Ready, calls))"
  by pat_completeness auto
termination
  by (relation "measure (\<lambda>(statusCheck, ready, attempts, calls). maxAttempts - attempts)") auto

declare renderPoll.simps [simp del]

definition renderWait :: "(nat \<Rightarrow> status_result) \<Rightarrow> poll_outcome \<times> nat" where
  "renderWait statusCheck = renderPoll statusCheck False 0 0"

definition reportsReady :: "status_result \<Rightarrow> bool" where
  "reportsReady r = (case r of Status s \<Rightarrow> s = str ''available'' | _ \<Rightarrow> False)"

definition reportsNotReady :: "status_result \<Rightarrow> bool" where
  "reportsNotReady r =
     (case r of NonZeroExit \<Rightarrow> True | Unparsable \<Rightarrow> False | Status s \<Rightarrow> s \<noteq> str ''available'')"

text \<open>
  The loop of \<open>setupRailway\<close>: \<open>getDatabaseUrls()\<close> is the status check, and the
  database is ready when \<open>urls.public\<close> is truthy (neither \<open>null\<close> nor the empty
  string). After the loop a falsy \<open>urls.public\<close> is exit code 1; otherwise the
  public URL is returned.
\<close>

record urls =
  internal :: "jsstring option"
  public :: "jsstring option"

definition truthy :: "jsstring option \<Rightarrow> bool" where
  "truthy v = (case v of None \<Rightarrow> False | Some s \<Rightarrow> s \<noteq> [])"

definition maxRetries :: nat where
  "maxRetries = 5"

function railwayPoll :: "(nat \<Rightarrow> urls) \<Rightarrow> nat \<Rightarrow> urls \<Rightarrow> nat \<Rightarrow> urls \<times> nat" where
  "railwayPoll getDatabaseUrls attempt us calls =
     (if attempt \<le> maxRetries then
        (let us' = getDatabaseUrls calls in
         if truthy (public us') then (us', calls + 1)
         else railwayPoll getDatabaseUrls (attempt + 1) us' (calls + 1))
      else (us, calls))"
  by pat_completeness auto
termination
  by (relation "measure (\<lambda>(getDatabaseUrls, attempt, us, calls). Suc maxRetries - attempt)") auto

declare railwayPoll.simps [simp del]

definition railwayFetch :: "(nat \<Rightarrow> urls) \<Rightarrow> jsstring outcome \<times> nat" where
  "railwayFetch getDatabaseUrls =
     (case railwayPoll getDatabaseUrls 1 \<lparr>internal = None, public = None\<rparr> 0 of
        (us, calls) \<Rightarrow>
          (case public us of
             None \<Rightarrow> (Exited 1, calls)
           | Some u \<Rightarrow> if u = [] then (Exited 1, calls) else (Returned u, calls)))"

section \<open>Generated passwords\<close>

text \<open>
  \<open>Math.random()\<close> returns a double in \<open>[0, 1)\<close>. A finite double that is not
  negative is \<open>mant * 2 ^ expo\<close> with \<open>mant < 2 ^ 53\<close> and \<open>expo \<ge> - 1074\<close>.
  \<open>timesInt d n\<close> is the double product of \<open>d\<close> and an integer \<open>n\<close> that is a
  double itself (here \<open>chars.length\<close>, 62): the exact product
  \<open>(mant * n) * 2 ^ expo\<close> rounded to 53 significant bits, to the nearest, ties to
  even. \<open>excessBits M\<close> is the number of bits that \<open>M\<close> has beyond 53. A product
  that has to be rounded is at least \<open>2 ^ 53 * 2 ^ - 1074\<close>, a normal double, and the
  product with 62 of a double below 1 does not overflow, so no other case of the
  standard arises. \<open>floorDouble\<close> is \<open>Math.floor\<close>.
\<close>

datatype double = Double (mant: nat) (expo: int)

definition isDouble :: "double \<Rightarrow> bool" where
  "isDouble d \<longleftrightarrow> mant d < 2 ^ 53 \<and> - 1074 \<le> expo d"

definition belowOne :: "double \<Rightarrow> bool" where
  "belowOne d \<longleftrightarrow> (if 0 \<le> expo d then mant d = 0 else mant d < 2 ^ nat (- expo d))"

function excessBits :: "nat \<Rightarrow> nat" where
  "excessBits M = (if M < 2 ^ 53 then 0 else Suc (excessBits (M div 2)))"
  by pat_completeness auto
termination
  by (relation "measure (\<lambda>M. M)") auto

declare excessBits.simps [simp del]

definition roundHalfEven :: "nat \<Rightarrow> nat \<Rightarrow> nat" where
  "roundHalfEven M k =
     (let q = M div 2 ^ k; r = M mod 2 ^ k
      in if 2 * r > 2 ^ k \<or> (2 * r = 2 ^ k \<and> odd q) then q + 1 else q)"

definition timesInt :: "double \<Rightarrow> nat \<Rightarrow> double" where
  "timesInt d n =
     (let M = mant d * n; k = excessBits M
      in Double (roundHalfEven M k) (expo d + int k))"

definition floorDouble :: "double \<Rightarrow> int" where
  "floorDouble d =
     (if 0 \<le> expo d then int (mant d) * 2 ^ nat (expo d)
      else int (mant d) div 2 ^ nat (- expo d))"

text \<open>
  \<open>genAlphanumericPassword(length)\<close> of the Supabase adapter. \<open>random\<close> gives the
  value of the k-th call of \<open>Math.random()\<close>.
\<close>

definition chars :: jsstring where
  "chars = str ''ABCDEFGHIJKLMNOPQRSTUVWXYZabcdefghijklmnopqrstuvwxyz0123456789''"

function genLoop ::
  "(nat \<Rightarrow> double) \<Rightarrow> int \<Rightarrow> int \<Rightarrow> nat \<Rightarrow> jsstring \<Rightarrow> jsstring" where
  "genLoop random len i draws password =
     (if i < len
      then genLoop random len (i + 1) (draws + 1)
             (password @ charAt chars (floorDouble (timesInt (random draws) (length chars))))
      else password)"
  by pat_completeness auto
termination
  by (relation "measure (\<lambda>(random, len, i, draws, password). nat (len - i))") auto

declare genLoop.simps [simp del]

definition genAlphanumericPassword :: "(nat \<Rightarrow> double) \<Rightarrow> int \<Rightarrow> jsstring" where
  "genAlphanumericPassword random len = genLoop random len 0 0 []"

text \<open>
  The connection string \<open>setupSupabase\<close> builds from the password of length 24 that
  it generates, and from the project id and the region that \<open>createSupabaseProject\<close>
  returns.
\<close>

definition supabaseUrl :: "(nat \<Rightarrow> double) \<Rightarrow> jsstring \<Rightarrow> jsstring \<Rightarrow> jsstring" where
  "supabaseUrl random projectId region =
     str ''postgresql://postgres.'' @ projectId @ str '':'' @
     genAlphanumericPassword random 24 @
     str ''@aws-0-'' @ region @ str ''.pooler.supabase.com:6543/postgres''"

text \<open>
  Modelled from the spec: \<open>utils/db-utils.js\<close>, from which \<open>local-docker.ts\<close>
  imports \<open>genAlphanumericPassword\<close>, is not among the sources (the specification
  says only that the local variant generates a password locally). The generator is
  therefore a parameter, \<open>generate\<close>, of the connection string that
  \<open>setupLocalDocker\<close> builds; the results apply it to the function of the same name
  that the Supabase adapter defines.
\<close>

definition localDockerUrl :: "(int \<Rightarrow> jsstring) \<Rightarrow> jsstring" where
  "localDockerUrl generate =
     str ''postgresql://'' @ str ''postgres'' @ str '':'' @ generate 24 @
     str ''@localhost:'' @ str ''5432'' @ str ''/'' @ str ''zerostarter''"

section \<open>Lines of a file\<close>

text \<open>
  The notions the properties are stated with. A line is a maximal run of code units
  between line terminators, the terminators of the expressions above (so a file with
  CRLF ends has an empty line between CR and LF). A line defines a key when it starts
  with the key and \<open>=\<close>.
\<close>

primrec splitLines :: "jsstring \<Rightarrow> jsstring list" where
  "splitLines [] = [[]]"
| "splitLines (c # cs) =
     (if isLineTerminator c then [] # splitLines cs
      else (case splitLines cs of [] \<Rightarrow> [[c]] | l # ls \<Rightarrow> (c # l) # ls))"

definition definesKey :: "jsstring \<Rightarrow> jsstring \<Rightarrow> bool" where
  "definesKey key line = prefix (key @ str ''='') line"

definition definingLines :: "jsstring \<Rightarrow> jsstring \<Rightarrow> jsstring list" where
  "definingLines key content = filter (definesKey key) (splitLines content)"

definition otherLines :: "jsstring \<Rightarrow> jsstring \<Rightarrow> jsstring list" where
  "otherLines key content = filter (\<lambda>l. \<not> definesKey key l) (splitLines content)"

text \<open>
  What \<open>replace(/\$/g, "$$$$")\<close> comes to, and the text with the newline that the
  append branch adds.
\<close>

definition doubleDollars :: "jsstring \<Rightarrow> jsstring" where
  "doubleDollars v = concat (map (\<lambda>c. if c = 0x24 then [0x24, 0x24] else [c]) v)"

definition separated :: "jsstring \<Rightarrow> jsstring" where
  "separated s =
     (if length s > 0 \<and> \<not> endsWith s (str ''\<newline>'') then s @ str ''\<newline>'' else s)"

section \<open>Validation of connection strings: results\<close>

lemma str_append: "str (a @ b) = str a @ str b"
  by (simp add: str_def)

lemma validate_postgres:
  "validateConnectionString (str ''postgres://'' @ r) = dotPlus r"
  by (simp add: validateConnectionString_def schemeSeparator_def str_def)

lemma validate_postgresql:
  "validateConnectionString (str ''postgresql://'' @ r) = dotPlus r"
  by (simp add: validateConnectionString_def schemeSeparator_def str_def)

lemma validate_only_if:
  assumes "validateConnectionString url"
  shows "\<exists>r. (url = str ''postgres://'' @ r \<or> url = str ''postgresql://'' @ r) \<and> dotPlus r"
proof -
  from assms have p: "prefix (str ''postgres'') url"
    by (simp add: validateConnectionString_def)
  then obtain u where u: "url = str ''postgres'' @ u"
    by (auto simp: prefix_def)
  from assms u have
    "(prefix (str ''ql'') u \<and> schemeSeparator (drop 2 u)) \<or> schemeSeparator u"
    by (simp add: validateConnectionString_def str_def)
  then show ?thesis
  proof
    assume a: "prefix (str ''ql'') u \<and> schemeSeparator (drop 2 u)"
    then obtain v where v: "u = str ''ql'' @ v"
      by (auto simp: prefix_def)
    with a have "schemeSeparator v"
      by (simp add: str_def)
    then obtain r where r: "v = str ''://'' @ r" and d: "dotPlus r"
      by (auto simp: schemeSeparator_def prefix_def str_def)
    have "url = str ''postgresql://'' @ r"
      using u v r by (simp add: str_def)
    with d show ?thesis by blast
  next
    assume "schemeSeparator u"
    then obtain r where r: "u = str ''://'' @ r" and d: "dotPlus r"
      by (auto simp: schemeSeparator_def prefix_def str_def)
    have "url = str ''postgres://'' @ r"
      using u r by (simp add: str_def)
    with d show ?thesis by blast
  qed
qed

text \<open>
  C6 (as the code has it): \<open>validateConnectionString\<close> accepts exactly the strings that
  start with \<open>postgres://\<close> or \<open>postgresql://\<close> and go on with at least one code unit
  that is not a line terminator; every other string is rejected. A bare prefix is
  rejected, because of the \<open>.+\<close> of the expression.
\<close>

theorem validateConnectionString_iff:
  "validateConnectionString url \<longleftrightarrow>
     (\<exists>c r. \<not> isLineTerminator c \<and>
        (url = str ''postgres://'' @ c # r \<or> url = str ''postgresql://'' @ c # r))"
proof
  assume "validateConnectionString url"
  then obtain r where
    r: "url = str ''postgres://'' @ r \<or> url = str ''postgresql://'' @ r" and d: "dotPlus r"
    using validate_only_if by blast
  from d obtain c r' where "r = c # r'" and "\<not> isLineTerminator c"
    by (cases r) (auto simp: dotPlus_def)
  with r show "\<exists>c r. \<not> isLineTerminator c \<and>
        (url = str ''postgres://'' @ c # r \<or> url = str ''postgresql://'' @ c # r)"
    by blast
next
  assume "\<exists>c r. \<not> isLineTerminator c \<and>
        (url = str ''postgres://'' @ c # r \<or> url = str ''postgresql://'' @ c # r)"
  then obtain c r where c: "\<not> isLineTerminator c" and
    u: "url = str ''postgres://'' @ c # r \<or> url = str ''postgresql://'' @ c # r"
    by blast
  from u show "validateConnectionString url"
  proof
    assume "url = str ''postgres://'' @ c # r"
    with c show ?thesis by (simp add: validate_postgres dotPlus_def)
  next
    assume "url = str ''postgresql://'' @ c # r"
    with c show ?thesis by (simp add: validate_postgresql dotPlus_def)
  qed
qed

theorem validateConnectionString_iff_witness:
  "validateConnectionString (str ''postgresql://localhost:5432/app'') \<and>
   \<not> validateConnectionString (str ''mysql://localhost/app'')"
proof -
  have a: "\<not> isLineTerminator 0x6C"
    by (simp add: isLineTerminator_def)
  have "str ''postgresql://localhost:5432/app'' =
        str ''postgresql://'' @ 0x6C # str ''ocalhost:5432/app''"
    by (simp add: str_def)
  with a have "validateConnectionString (str ''postgresql://localhost:5432/app'')"
    using validateConnectionString_iff [of "str ''postgresql://localhost:5432/app''"]
    by blast
  moreover have "\<not> validateConnectionString (str ''mysql://localhost/app'')"
    using validateConnectionString_iff [of "str ''mysql://localhost/app''"]
    by (simp add: str_def)
  ultimately show ?thesis by simp
qed

text \<open>
  The claim as the specification words it (every string that starts with one of the two
  prefixes is accepted) fails at the bare prefix.
\<close>

theorem validateConnectionString_bare_prefix_rejected:
  "prefix (str ''postgres://'') (str ''postgres://'') \<and>
   \<not> validateConnectionString (str ''postgres://'')"
  by (simp add: validateConnectionString_def schemeSeparator_def dotPlus_def str_def)

section \<open>Lines and the search of an assignment\<close>



lemma splitLines_nonempty: "splitLines s \<noteq> []"
  by (induction s) (auto split: list.splits)

lemma splitLines_Cons:
  "splitLines (c # cs) =
     (if isLineTerminator c then [] # splitLines cs
      else (c # hd (splitLines cs)) # tl (splitLines cs))"
  using splitLines_nonempty [of cs] by (cases "splitLines cs") auto

lemma hd_splitLines: "hd (splitLines s) = takeWhile (\<lambda>x. \<not> isLineTerminator x) s"
  by (induction s) (auto simp del: splitLines.simps(2) simp add: splitLines_Cons)

lemma splitLines_append_LT:
  "isLineTerminator t \<Longrightarrow> splitLines (x @ t # y) = splitLines x @ splitLines y"
  by (induction x)
    (auto simp del: splitLines.simps(2) simp add: splitLines_Cons splitLines_nonempty)

lemma splitLines_noLT:
  "\<forall>c\<in>set m. \<not> isLineTerminator c \<Longrightarrow> splitLines m = [m]"
  by (induction m) auto

lemma splitLines_line_then:
  assumes "\<forall>c\<in>set m. \<not> isLineTerminator c" and "a = [] \<or> isLineTerminator (hd a)"
  shows "splitLines (m @ a) = m # tl (splitLines a)"
proof (cases a)
  case Nil
  with assms show ?thesis by (simp add: splitLines_noLT)
next
  case (Cons t a')
  with assms have "isLineTerminator t" by simp
  then show ?thesis
    using assms(1) Cons by (simp add: splitLines_append_LT splitLines_noLT)
qed

lemma splitLines_after_break:
  assumes "b = [] \<or> isLineTerminator (last b)"
  shows "splitLines (b @ x) = butlast (splitLines b) @ splitLines x"
proof (cases b rule: rev_cases)
  case Nil
  then show ?thesis by simp
next
  case (snoc b' t)
  with assms have t: "isLineTerminator t" by simp
  have "splitLines (b' @ t # x) = splitLines b' @ splitLines x"
    using t by (rule splitLines_append_LT)
  moreover have "splitLines (b' @ t # []) = splitLines b' @ splitLines []"
    using t by (rule splitLines_append_LT)
  ultimately show ?thesis using snoc by simp
qed

lemma splitLines_frame:
  assumes "b = [] \<or> isLineTerminator (last b)"
    and "\<forall>c\<in>set m. \<not> isLineTerminator c"
    and "a = [] \<or> isLineTerminator (hd a)"
  shows "splitLines (b @ m @ a) = butlast (splitLines b) @ m # tl (splitLines a)"
  using assms by (simp add: splitLines_after_break splitLines_line_then)

lemma prefix_takeWhile_noLT:
  "\<forall>c\<in>set p. \<not> isLineTerminator c \<Longrightarrow>
   prefix p (takeWhile (\<lambda>x. \<not> isLineTerminator x) s) = prefix p s"
proof (induction p arbitrary: s)
  case Nil
  then show ?case by simp
next
  case (Cons c p)
  then show ?case by (cases s) auto
qed

lemma prefix_before_LT:
  assumes "\<forall>c\<in>set p. \<not> isLineTerminator c" and "isLineTerminator t"
  shows "prefix p (x @ t # y) = prefix p x"
  using assms
proof (induction p arbitrary: x)
  case Nil
  then show ?case by simp
next
  case (Cons c p)
  then show ?case by (cases x) auto
qed



lemma execAssign_at_start:
  assumes "p \<noteq> []"
  shows "execAssign p True (p @ r) =
    Some ([], p @ takeWhile (\<lambda>x. \<not> isLineTerminator x) r, dropWhile (\<lambda>x. \<not> isLineTerminator x) r)"
proof -
  obtain c p' where p: "p = c # p'" using assms by (cases p) auto
  have "execAssign p True (c # (p' @ r)) =
    Some ([], p @ takeWhile (\<lambda>x. \<not> isLineTerminator x) (drop (length p) (c # (p' @ r))),
      dropWhile (\<lambda>x. \<not> isLineTerminator x) (drop (length p) (c # (p' @ r))))"
    unfolding execAssign.simps using p by simp
  then show ?thesis using p by simp
qed

lemma execAssign_shape:
  assumes "execAssign p bol s = Some (b, m, a)"
    and "\<forall>c\<in>set p. \<not> isLineTerminator c"
  shows "s = b @ m @ a \<and> prefix p m \<and> (\<forall>c\<in>set m. \<not> isLineTerminator c) \<and>
         (a = [] \<or> isLineTerminator (hd a)) \<and> (if b = [] then bol else isLineTerminator (last b))"
  using assms
proof (induction s arbitrary: bol b)
  case Nil
  then show ?case by (auto split: if_splits)
next
  case (Cons c cs)
  show ?case
  proof (cases "bol \<and> prefix p (c # cs)")
    case True
    then obtain r where r: "c # cs = p @ r" by (auto simp: prefix_def)
    from True Cons.prems(1) have
      b: "b = []" and
      m: "m = p @ takeWhile (\<lambda>x. \<not> isLineTerminator x) (drop (length p) (c # cs))" and
      a: "a = dropWhile (\<lambda>x. \<not> isLineTerminator x) (drop (length p) (c # cs))"
      by auto
    have "a = [] \<or> isLineTerminator (hd a)"
      using a hd_dropWhile [of "\<lambda>x. \<not> isLineTerminator x" "drop (length p) (c # cs)"] by auto
    moreover have "\<forall>c\<in>set m. \<not> isLineTerminator c"
      using m Cons.prems(2) by (auto dest: set_takeWhileD)
    moreover have "c # cs = b @ m @ a"
      using b m a r by simp
    moreover have "prefix p m"
      using m by simp
    ultimately show ?thesis using True b by simp
  next
    case False
    with Cons.prems(1) obtain b' where
      b: "b = c # b'" and e: "execAssign p (isLineTerminator c) cs = Some (b', m, a)"
      by (auto split: if_splits)
    from Cons.IH [OF e Cons.prems(2)] show ?thesis
      using b by (auto split: if_splits)
  qed
qed

lemma execAssign_None_iff:
  assumes "\<forall>c\<in>set p. \<not> isLineTerminator c"
  shows "execAssign p bol s = None \<longleftrightarrow>
         (\<forall>l\<in>set (if bol then splitLines s else tl (splitLines s)). \<not> prefix p l)"
  using assms
proof (induction s arbitrary: bol)
  case Nil
  then show ?case by auto
next
  case (Cons c cs)
  show ?case
  proof (cases "isLineTerminator c")
    case True
    have "prefix p (c # cs) = (p = [])"
      using True Cons.prems by (cases p) auto
    then show ?thesis
      using True Cons.IH [OF Cons.prems, of True]
      by (auto simp del: splitLines.simps(2) simp add: splitLines_Cons)
  next
    case False
    have "prefix p (c # cs) = prefix p (c # hd (splitLines cs))"
      using prefix_takeWhile_noLT [OF Cons.prems, of "c # cs"] False
      by (simp add: hd_splitLines)
    then show ?thesis
      using False Cons.IH [OF Cons.prems, of False]
      by (auto simp del: splitLines.simps(2) simp add: splitLines_Cons)
  qed
qed

lemma execAssign_stable:
  assumes "execAssign p bol s = Some (b, m, a)"
    and "\<forall>c\<in>set p. \<not> isLineTerminator c" and "p \<noteq> []"
    and "\<forall>c\<in>set v. \<not> isLineTerminator c"
  shows "execAssign p bol (b @ p @ v @ a) = Some (b, p @ v, a)"
  using assms(1)
proof (induction s arbitrary: bol b)
  case Nil
  then show ?case using assms(3) by (auto split: if_splits)
next
  case (Cons c cs)
  note sh = execAssign_shape [OF Cons.prems assms(2)]
  have tw: "takeWhile (\<lambda>x. \<not> isLineTerminator x) (v @ a) = v"
    using sh assms(4) by (cases a) (auto simp: takeWhile_append2)
  have dw: "dropWhile (\<lambda>x. \<not> isLineTerminator x) (v @ a) = a"
    using sh assms(4) by (cases a) (auto simp: dropWhile_append2)
  show ?case
  proof (cases "bol \<and> prefix p (c # cs)")
    case True
    with Cons.prems have b: "b = []" by auto
    show ?thesis
      using True b execAssign_at_start [OF assms(3), of "v @ a"] tw dw by simp
  next
    case False
    with Cons.prems obtain b' where
      b: "b = c # b'" and e: "execAssign p (isLineTerminator c) cs = Some (b', m, a)"
      by (auto split: if_splits)
    have ih: "execAssign p (isLineTerminator c) (b' @ p @ v @ a) = Some (b', p @ v, a)"
      by (rule Cons.IH [OF e])
    from sh b have lt: "isLineTerminator (last (c # b'))" by simp
    obtain x t where xt: "c # b' = x @ [t]"
      by (metis list.distinct(1) rev_exhaust)
    with lt have t: "isLineTerminator t" by simp
    have "prefix p (c # b' @ p @ v @ a) = prefix p x"
      using prefix_before_LT [OF assms(2) t, of x "p @ v @ a"] xt
      by (metis append_Cons append_assoc append_Nil)
    moreover have "prefix p (c # cs) = prefix p x"
      using prefix_before_LT [OF assms(2) t, of x "m @ a"] xt sh b
      by (metis append_Cons append_assoc append_Nil)
    ultimately have "\<not> (bol \<and> prefix p (c # b' @ p @ v @ a))"
      using False by simp
    then show ?thesis using ih b by simp
  qed
qed

lemma execAssign_past_None:
  assumes "execAssign p bol s = None"
    and "\<forall>c\<in>set p. \<not> isLineTerminator c" and "p \<noteq> []" and "isLineTerminator t"
  shows "execAssign p bol (s @ t # y) =
         map_option (\<lambda>(b, m, a). (s @ t # b, m, a)) (execAssign p True y)"
  using assms(1)
proof (induction s arbitrary: bol)
  case Nil
  have "\<not> prefix p (t # y)"
    using assms(2,3,4) by (cases p) auto
  then show ?case using assms(4) by simp
next
  case (Cons c cs)
  from Cons.prems have nb: "\<not> (bol \<and> prefix p (c # cs))"
    and e: "execAssign p (isLineTerminator c) cs = None"
    by (auto split: if_splits)
  have "prefix p ((c # cs) @ t # y) = prefix p (c # cs)"
    by (rule prefix_before_LT [OF assms(2) assms(4)])
  with nb have "\<not> (bol \<and> prefix p (c # cs @ t # y))" by simp
  then have "execAssign p bol (c # cs @ t # y) =
      map_option (\<lambda>(b, m, a). (c # b, m, a)) (execAssign p (isLineTerminator c) (cs @ t # y))"
    by (cases bol) auto
  then show ?case
    using Cons.IH [OF e] by (simp add: option.map_comp comp_def case_prod_unfold)
qed

lemma execAssign_skip_line:
  assumes "\<forall>c\<in>set x. \<not> isLineTerminator c" and "isLineTerminator t"
  shows "execAssign p False (x @ t # y) =
         map_option (\<lambda>(b, m, a). (x @ t # b, m, a)) (execAssign p True y)"
  using assms(1)
proof (induction x)
  case Nil
  then show ?case using assms(2) by simp
next
  case (Cons c x)
  then show ?case
    by (simp add: option.map_comp comp_def case_prod_unfold)
qed



lemma getSubstitution_plain:
  "c \<noteq> 0x24 \<Longrightarrow>
   getSubstitution m b a caps (c # t) = c # getSubstitution m b a caps t"
  by (cases t) auto

lemma getSubstitution_plain_prefix:
  "0x24 \<notin> set p \<Longrightarrow>
   getSubstitution m b a caps (p @ t) = p @ getSubstitution m b a caps t"
  by (induction p) (auto simp: getSubstitution_plain)

lemma replaceEach_dollar:
  "replaceEach 0x24 (str ''$$$$'') pre v = doubleDollars v"
  by (induction v arbitrary: pre) (auto simp: doubleDollars_def str_def)

lemma getSubstitution_doubleDollars:
  "getSubstitution m b a caps (doubleDollars v) = v"
proof (induction v)
  case Nil
  then show ?case by (simp add: doubleDollars_def)
next
  case (Cons c v)
  then show ?case
    by (cases "c = 0x24") (auto simp: doubleDollars_def getSubstitution_plain)
qed

lemma doubleDollars_id: "0x24 \<notin> set v \<Longrightarrow> doubleDollars v = v"
  by (induction v) (auto simp: doubleDollars_def)

lemma set_doubleDollars: "set (doubleDollars v) = set v"
  by (induction v) (auto simp: doubleDollars_def)

lemma nameChar_facts:
  "isNameChar c \<Longrightarrow> \<not> isLineTerminator c \<and> c \<noteq> 0x24 \<and> c \<noteq> 0x23"
  by (auto simp: isNameChar_def isAsciiLetter_def isDigit_def isLineTerminator_def)

lemma nameStart_nameChar: "isNameStart c \<Longrightarrow> isNameChar c"
  by (auto simp: isNameStart_def isNameChar_def)

lemma validVariableName_chars:
  assumes "validVariableName key"
  shows "key \<noteq> [] \<and> list_all isNameChar key"
  using assms by (cases key) (auto simp: validVariableName_def nameStart_nameChar)

lemma pattern_facts:
  assumes "validVariableName key"
  shows "key @ str ''='' \<noteq> []"
    and "\<forall>c\<in>set (key @ str ''=''). \<not> isLineTerminator c"
    and "0x24 \<notin> set (key @ str ''='')"
    and "\<not> prefix (key @ str ''='') (0x23 # r)"
proof -
  from validVariableName_chars [OF assms] have k: "key \<noteq> []" and a: "list_all isNameChar key"
    by simp_all
  show "key @ str ''='' \<noteq> []" by (simp add: str_def)
  show "\<forall>c\<in>set (key @ str ''=''). \<not> isLineTerminator c"
    using a nameChar_facts by (auto simp: list_all_iff str_def isLineTerminator_def)
  show "0x24 \<notin> set (key @ str ''='')"
    using a nameChar_facts by (auto simp: list_all_iff str_def)
  from k obtain c cs where "key = c # cs" by (cases key) auto
  then show "\<not> prefix (key @ str ''='') (0x23 # r)"
    using a nameChar_facts [of c] by auto
qed



lemma upsertContent_replace:
  assumes "execAssign (key @ str ''='') True s = Some (b, m, a)"
    and "validVariableName key"
  shows "upsertContent key v s = b @ (key @ str ''='') @ v @ a"
proof -
  have "getSubstitution m b a [] ((key @ str ''='') @ doubleDollars v) = (key @ str ''='') @ v"
    using getSubstitution_plain_prefix [OF pattern_facts(3) [OF assms(2)], of m b a "[]" "doubleDollars v"]
    by (simp only: getSubstitution_doubleDollars)
  then show ?thesis
    using assms(1) by (simp add: upsertContent_def replaceEach_dollar)
qed

lemma upsertContent_append:
  assumes "execAssign (key @ str ''='') True s = None"
  shows "upsertContent key v s =
    separated s @ str ''\<newline># Database Configuration\<newline>'' @ (key @ str ''='') @ doubleDollars v @ str ''\<newline>''"
  using assms by (simp add: upsertContent_def replaceEach_dollar separated_def Let_def)

lemma LF_terminator: "isLineTerminator 0x0A"
  by (simp add: isLineTerminator_def)

lemma comment_noLT: "\<forall>c\<in>set (str ''# Database Configuration''). \<not> isLineTerminator c"
  by (simp add: str_def isLineTerminator_def)

lemma comment_block:
  "str ''\<newline># Database Configuration\<newline>'' @ x =
   0x0A # str ''# Database Configuration'' @ 0x0A # x"
  by (simp add: str_def)

lemma splitLines_separated:
  "splitLines (separated s) =
   splitLines s @ (if length s > 0 \<and> \<not> endsWith s (str ''\<newline>'') then [[]] else [])"
proof -
  have "splitLines (s @ 0x0A # []) = splitLines s @ splitLines []"
    using LF_terminator by (rule splitLines_append_LT)
  then show ?thesis by (simp add: separated_def str_def)
qed

lemma lines_append:
  assumes "execAssign (key @ str ''='') True s = None"
    and "\<forall>c\<in>set v. \<not> isLineTerminator c" and "validVariableName key"
  shows "splitLines (upsertContent key v s) =
         splitLines (separated s) @
         [str ''# Database Configuration'', (key @ str ''='') @ doubleDollars v, []]"
proof -
  let ?p = "key @ str ''=''"
  let ?l = "?p @ doubleDollars v"
  have n: "\<forall>c\<in>set ?l. \<not> isLineTerminator c"
    using pattern_facts(2) [OF assms(3)] assms(2) by (auto simp: set_doubleDollars)
  have a: "splitLines (?l @ 0x0A # []) = [?l, []]"
    using splitLines_append_LT [OF LF_terminator, of ?l "[]"] splitLines_noLT [OF n] by simp
  have b: "splitLines (str ''# Database Configuration'' @ 0x0A # (?l @ 0x0A # [])) =
           [str ''# Database Configuration'', ?l, []]"
    using splitLines_append_LT [OF LF_terminator, of "str ''# Database Configuration''" "?l @ 0x0A # []"]
      splitLines_noLT [OF comment_noLT] a by simp
  have c: "upsertContent key v s =
           separated s @ 0x0A # (str ''# Database Configuration'' @ 0x0A # (?l @ 0x0A # []))"
    using upsertContent_append [OF assms(1), of v] by (simp add: comment_block) (simp add: str_def)
  show ?thesis
    unfolding c using splitLines_append_LT [OF LF_terminator, of "separated s"] b by simp
qed

lemma lines_replace:
  assumes "execAssign (key @ str ''='') True s = Some (b, m, a)"
    and "\<forall>c\<in>set v. \<not> isLineTerminator c" and "validVariableName key"
  shows "splitLines s = butlast (splitLines b) @ m # tl (splitLines a)"
    and "splitLines (upsertContent key v s) =
         butlast (splitLines b) @ ((key @ str ''='') @ v) # tl (splitLines a)"
    and "prefix (key @ str ''='') m"
proof -
  let ?p = "key @ str ''=''"
  note sh = execAssign_shape [OF assms(1) pattern_facts(2) [OF assms(3)]]
  from sh have bb: "b = [] \<or> isLineTerminator (last b)"
    by (auto split: if_splits)
  from sh have aa: "a = [] \<or> isLineTerminator (hd a)" by simp
  from sh have mm: "\<forall>c\<in>set m. \<not> isLineTerminator c" by simp
  have n: "\<forall>c\<in>set (?p @ v). \<not> isLineTerminator c"
    using pattern_facts(2) [OF assms(3)] assms(2) by auto
  from sh have s: "s = b @ m @ a" by simp
  show "splitLines s = butlast (splitLines b) @ m # tl (splitLines a)"
    unfolding s by (rule splitLines_frame [OF bb mm aa])
  have "upsertContent key v s = b @ (?p @ v) @ a"
    using upsertContent_replace [OF assms(1) assms(3), of v] by simp
  then show "splitLines (upsertContent key v s) =
         butlast (splitLines b) @ (?p @ v) # tl (splitLines a)"
    using splitLines_frame [OF bb n aa] by simp
  from sh show "prefix ?p m" by simp
qed



lemma exec_None_definingLines:
  assumes "validVariableName key"
  shows "execAssign (key @ str ''='') True s = None \<longleftrightarrow> definingLines key s = []"
  using execAssign_None_iff [OF pattern_facts(2) [OF assms], of True s]
  by (auto simp: definingLines_def definesKey_def filter_empty_conv)

lemma comment_not_defining:
  assumes "validVariableName key"
  shows "\<not> definesKey key (str ''# Database Configuration'')"
proof -
  have "str ''# Database Configuration'' = 0x23 # str '' Database Configuration''"
    by (simp add: str_def)
  then show ?thesis
    using pattern_facts(4) [OF assms] by (simp add: definesKey_def)
qed

lemma empty_not_defining:
  assumes "validVariableName key"
  shows "\<not> definesKey key []"
  using pattern_facts(1) [OF assms] by (simp add: definesKey_def)

lemma definingLines_separated:
  assumes "validVariableName key"
  shows "filter (definesKey key) (splitLines (separated s)) = definingLines key s"
  using empty_not_defining [OF assms]
  by (simp add: splitLines_separated definingLines_def)

lemma count_upsert:
  assumes "validVariableName key" and "\<forall>c\<in>set v. \<not> isLineTerminator c"
  shows "length (definingLines key (upsertContent key v s)) = max 1 (length (definingLines key s))"
proof (cases "execAssign (key @ str ''='') True s")
  case None
  then have z: "definingLines key s = []"
    using exec_None_definingLines [OF assms(1)] by simp
  have "definingLines key (upsertContent key v s) = [(key @ str ''='') @ doubleDollars v]"
    unfolding definingLines_def lines_append [OF None assms(2) assms(1)]
    using definingLines_separated [OF assms(1), of s] z
      comment_not_defining [OF assms(1)] empty_not_defining [OF assms(1)]
    by (simp add: definesKey_def)
  with z show ?thesis by simp
next
  case (Some r)
  obtain b m a where r: "r = (b, m, a)" by (cases r) auto
  note e = Some [unfolded r]
  note l = lines_replace [OF e assms(2) assms(1)]
  have "length (definingLines key (upsertContent key v s)) =
        Suc (length (filter (definesKey key) (butlast (splitLines b))) +
             length (filter (definesKey key) (tl (splitLines a))))"
    unfolding definingLines_def l(2) by (simp add: definesKey_def)
  moreover have "length (definingLines key s) =
        Suc (length (filter (definesKey key) (butlast (splitLines b))) +
             length (filter (definesKey key) (tl (splitLines a))))"
    unfolding definingLines_def l(1) using l(3) by (simp add: definesKey_def)
  ultimately show ?thesis by simp
qed

lemma others_upsert:
  assumes "validVariableName key" and "\<forall>c\<in>set v. \<not> isLineTerminator c"
  shows "prefix (otherLines key s) (otherLines key (upsertContent key v s))"
proof (cases "execAssign (key @ str ''='') True s")
  case None
  have "otherLines key (upsertContent key v s) =
        otherLines key s @
        filter (\<lambda>l. \<not> definesKey key l)
          ((if length s > 0 \<and> \<not> endsWith s (str ''\<newline>'') then [[]] else []) @
           [str ''# Database Configuration'', (key @ str ''='') @ doubleDollars v, []])"
    unfolding otherLines_def lines_append [OF None assms(2) assms(1)] splitLines_separated
    by simp
  then show ?thesis by simp
next
  case (Some r)
  obtain b m a where r: "r = (b, m, a)" by (cases r) auto
  note e = Some [unfolded r]
  note l = lines_replace [OF e assms(2) assms(1)]
  have "otherLines key (upsertContent key v s) = otherLines key s"
    unfolding otherLines_def l(1) l(2) using l(3) by (simp add: definesKey_def)
  then show ?thesis by simp
qed

lemma exec_on_appended:
  assumes "execAssign (key @ str ''='') True s = None"
    and "validVariableName key" and "\<forall>c\<in>set w. \<not> isLineTerminator c"
  shows "execAssign (key @ str ''='') True
           (separated s @ str ''\<newline># Database Configuration\<newline>'' @ (key @ str ''='') @ w @ str ''\<newline>'') =
         Some (separated s @ str ''\<newline># Database Configuration\<newline>'', (key @ str ''='') @ w, str ''\<newline>'')"
proof -
  let ?p = "key @ str ''=''"
  note pf = pattern_facts [OF assms(2)]
  have sep: "execAssign ?p True (separated s) = None"
  proof (cases "length s > 0 \<and> \<not> endsWith s (str ''\<newline>'')")
    case True
    have "execAssign ?p True (s @ 0x0A # []) =
          map_option (\<lambda>(b, m, a). (s @ 0x0A # b, m, a)) (execAssign ?p True [])"
      by (rule execAssign_past_None [OF assms(1) pf(2) pf(1) LF_terminator])
    then show ?thesis using True pf(1) by (simp add: separated_def str_def)
  next
    case False
    then have "separated s = s" by (auto simp: separated_def)
    then show ?thesis using assms(1) by simp
  qed
  have tw: "takeWhile (\<lambda>x. \<not> isLineTerminator x) (w @ [0x0A]) = w"
    using assms(3) LF_terminator by (simp add: takeWhile_append2)
  have dw: "dropWhile (\<lambda>x. \<not> isLineTerminator x) (w @ [0x0A]) = [0x0A]"
    using assms(3) LF_terminator by (simp add: dropWhile_append2)
  have z: "execAssign ?p True (?p @ (w @ [0x0A])) = Some ([], ?p @ w, [0x0A])"
    using execAssign_at_start [OF pf(1), of "w @ [0x0A]"] tw dw by simp
  have rest: "\<forall>c\<in>set (str '' Database Configuration''). \<not> isLineTerminator c"
    by (simp add: str_def isLineTerminator_def)
  have c1: "execAssign ?p False (str '' Database Configuration'' @ 0x0A # (?p @ (w @ [0x0A]))) =
        Some (str '' Database Configuration'' @ [0x0A], ?p @ w, [0x0A])"
    using execAssign_skip_line [OF rest LF_terminator, of ?p "?p @ (w @ [0x0A])"] z by simp
  have nl23: "\<not> isLineTerminator 0x23"
    by (simp add: isLineTerminator_def)
  have c2: "execAssign ?p True (0x23 # (str '' Database Configuration'' @ 0x0A # (?p @ (w @ [0x0A])))) =
        Some (0x23 # str '' Database Configuration'' @ [0x0A], ?p @ w, [0x0A])"
    using pf(4) c1 nl23 by simp
  have c3: "execAssign ?p True
        (separated s @ 0x0A # (0x23 # (str '' Database Configuration'' @ 0x0A # (?p @ (w @ [0x0A]))))) =
        Some (separated s @ 0x0A # 0x23 # str '' Database Configuration'' @ [0x0A], ?p @ w, [0x0A])"
    using execAssign_past_None [OF sep pf(2) pf(1) LF_terminator,
        of "0x23 # (str '' Database Configuration'' @ 0x0A # (?p @ (w @ [0x0A])))"] c2
    by simp
  have e1: "str ''\<newline># Database Configuration\<newline>'' =
        0x0A # 0x23 # str '' Database Configuration'' @ [0x0A]"
    by (simp add: str_def)
  have e2: "str ''\<newline>'' = [0x0A]" by (simp add: str_def)
  show ?thesis using c3 unfolding e1 e2 by simp
qed

lemma twice_append:
  assumes "execAssign (key @ str ''='') True s = None"
    and "validVariableName key" and "\<forall>c\<in>set v. \<not> isLineTerminator c"
  shows "upsertContent key v (upsertContent key v s) =
         separated s @ str ''\<newline># Database Configuration\<newline>'' @ (key @ str ''='') @ v @ str ''\<newline>''"
proof -
  have n: "\<forall>c\<in>set (doubleDollars v). \<not> isLineTerminator c"
    using assms(3) by (simp add: set_doubleDollars)
  have "upsertContent key v (upsertContent key v s) =
        (separated s @ str ''\<newline># Database Configuration\<newline>'') @ (key @ str ''='') @ v @ str ''\<newline>''"
    unfolding upsertContent_append [OF assms(1)]
    by (rule upsertContent_replace [OF exec_on_appended [OF assms(1) assms(2) n] assms(2)])
  then show ?thesis by simp
qed

lemma twice_replace:
  assumes "execAssign (key @ str ''='') True s = Some (b, m, a)"
    and "validVariableName key" and "\<forall>c\<in>set v. \<not> isLineTerminator c"
  shows "upsertContent key v (upsertContent key v s) = upsertContent key v s"
proof -
  note pf = pattern_facts [OF assms(2)]
  have "execAssign (key @ str ''='') True (b @ (key @ str ''='') @ v @ a) =
        Some (b, (key @ str ''='') @ v, a)"
    by (rule execAssign_stable [OF assms(1) pf(2) pf(1) assms(3)])
  then show ?thesis
    unfolding upsertContent_replace [OF assms(1) assms(2)]
    by (rule upsertContent_replace [OF _ assms(2)])
qed

section \<open>The upsert: results\<close>

lemma written_content:
  "fileContent (writeDatabaseUrl databaseUrl config fs) (envPath config) =
   upsertContent (variableName config) databaseUrl (fileContent fs (envPath config))"
  by (cases "fs (envPath config)") (simp_all add: writeDatabaseUrl_def fileContent_def)

lemma written_some:
  "writeDatabaseUrl databaseUrl config fs (envPath config) =
   Some (upsertContent (variableName config) databaseUrl (fileContent fs (envPath config)))"
  by (cases "fs (envPath config)") (simp_all add: writeDatabaseUrl_def fileContent_def)

lemma backup_path_differs: "path @ str ''.backup'' \<noteq> path"
  by (simp add: str_def)

lemma valid_DATABASE_URL: "validVariableName (str ''DATABASE_URL'')"
  by (simp add: validVariableName_def trim_def str_def isWhiteSpace_def isLineTerminator_def
      isNameStart_def isNameChar_def isAsciiLetter_def isDigit_def)

lemma url_noLT: "\<forall>c\<in>set (str ''postgres://u:p@h/d''). \<not> isLineTerminator c"
  by (simp add: str_def isLineTerminator_def)

text \<open>
  C4: when the target file exists with content \<open>C\<close> before \<open>writeDatabaseUrl\<close>, the
  file \<open>envPath + ".backup"\<close> holds exactly \<open>C\<close> afterwards; when the target file
  does not exist, the backup path is left as it was (no backup is created); and no path
  other than the target and its backup is touched.
\<close>

theorem writeDatabaseUrl_backup:
  "(fs (envPath config) = Some C \<longrightarrow>
      writeDatabaseUrl databaseUrl config fs (envPath config @ str ''.backup'') = Some C) \<and>
   (fs (envPath config) = None \<longrightarrow>
      writeDatabaseUrl databaseUrl config fs (envPath config @ str ''.backup'') =
      fs (envPath config @ str ''.backup'')) \<and>
   (\<forall>p. p \<noteq> envPath config \<and> p \<noteq> envPath config @ str ''.backup'' \<longrightarrow>
      writeDatabaseUrl databaseUrl config fs p = fs p)"
  using backup_path_differs [of "envPath config"]
  by (auto simp: writeDatabaseUrl_def split: option.splits)

theorem writeDatabaseUrl_backup_witness:
  "writeDatabaseUrl (str ''postgres://u:p@h/d'')
     \<lparr>envPath = str ''.env'', variableName = str ''DATABASE_URL''\<rparr>
     [str ''.env'' \<mapsto> str ''PORT=3000'']
     (str ''.env.backup'') = Some (str ''PORT=3000'') \<and>
   writeDatabaseUrl (str ''postgres://u:p@h/d'')
     \<lparr>envPath = str ''.env'', variableName = str ''DATABASE_URL''\<rparr>
     Map.empty
     (str ''.env.backup'') = None"
proof -
  let ?c = "\<lparr>envPath = str ''.env'', variableName = str ''DATABASE_URL''\<rparr>"
  have e: "envPath ?c @ str ''.backup'' = str ''.env.backup''"
    by (simp add: str_def)
  have "[str ''.env'' \<mapsto> str ''PORT=3000''] (envPath ?c) = Some (str ''PORT=3000'')"
    by simp
  then have a: "writeDatabaseUrl (str ''postgres://u:p@h/d'') ?c [str ''.env'' \<mapsto> str ''PORT=3000'']
      (envPath ?c @ str ''.backup'') = Some (str ''PORT=3000'')"
    using writeDatabaseUrl_backup
      [of "[str ''.env'' \<mapsto> str ''PORT=3000'']" ?c "str ''PORT=3000''" "str ''postgres://u:p@h/d''"]
    by blast
  have "(Map.empty :: filesystem) (envPath ?c) = None" by simp
  then have b: "writeDatabaseUrl (str ''postgres://u:p@h/d'') ?c Map.empty
      (envPath ?c @ str ''.backup'') = Map.empty (envPath ?c @ str ''.backup'')"
    using writeDatabaseUrl_backup [of Map.empty ?c "[]" "str ''postgres://u:p@h/d''"]
    by blast
  from a b show ?thesis unfolding e by simp
qed

text \<open>
  C2 (as the code has it): for a valid variable name and a value without a line
  terminator, one \<open>writeDatabaseUrl\<close> leaves \<open>max 1 n\<close> lines that define the key,
  where \<open>n\<close> is their number before: the first defining line is replaced (or a line
  is appended when there is none) and later defining lines stay. So exactly one line
  defines the key afterwards when at most one did before. The lines that do not define
  the key are kept as they are and in their order, at the front of those of the result.
\<close>

theorem writeDatabaseUrl_defining_lines:
  assumes "validVariableName (variableName config)"
    and "\<forall>c\<in>set databaseUrl. \<not> isLineTerminator c"
  shows "length (definingLines (variableName config)
           (fileContent (writeDatabaseUrl databaseUrl config fs) (envPath config))) =
         max 1 (length (definingLines (variableName config) (fileContent fs (envPath config)))) \<and>
         (length (definingLines (variableName config) (fileContent fs (envPath config))) \<le> 1 \<longrightarrow>
          length (definingLines (variableName config)
           (fileContent (writeDatabaseUrl databaseUrl config fs) (envPath config))) = 1) \<and>
         prefix (otherLines (variableName config) (fileContent fs (envPath config)))
           (otherLines (variableName config)
             (fileContent (writeDatabaseUrl databaseUrl config fs) (envPath config)))"
  using count_upsert [OF assms, of "fileContent fs (envPath config)"]
    others_upsert [OF assms, of "fileContent fs (envPath config)"]
  by (simp add: written_content)

theorem writeDatabaseUrl_defining_lines_witness:
  "length (definingLines (str ''DATABASE_URL'')
     (fileContent
        (writeDatabaseUrl (str ''postgres://u:p@h/d'')
           \<lparr>envPath = str ''.env'', variableName = str ''DATABASE_URL''\<rparr>
           [str ''.env'' \<mapsto> str ''PORT=3000\<newline>DATABASE_URL=old''])
        (str ''.env''))) = 1 \<and>
   prefix [str ''PORT=3000'']
     (otherLines (str ''DATABASE_URL'')
        (fileContent
           (writeDatabaseUrl (str ''postgres://u:p@h/d'')
              \<lparr>envPath = str ''.env'', variableName = str ''DATABASE_URL''\<rparr>
              [str ''.env'' \<mapsto> str ''PORT=3000\<newline>DATABASE_URL=old''])
           (str ''.env'')))"
proof -
  let ?c = "\<lparr>envPath = str ''.env'', variableName = str ''DATABASE_URL''\<rparr>"
  let ?fs = "[str ''.env'' \<mapsto> str ''PORT=3000\<newline>DATABASE_URL=old'']"
  have v: "validVariableName (variableName ?c)"
    using valid_DATABASE_URL by simp
  have l: "splitLines (str ''PORT=3000\<newline>DATABASE_URL=old'') =
           [str ''PORT=3000'', str ''DATABASE_URL=old'']"
    by (simp add: str_def isLineTerminator_def)
  have d: "definingLines (str ''DATABASE_URL'') (fileContent ?fs (str ''.env'')) =
           [str ''DATABASE_URL=old'']"
    unfolding definingLines_def fileContent_def using l
    by (simp add: definesKey_def) (simp add: str_def)
  have o: "otherLines (str ''DATABASE_URL'') (fileContent ?fs (str ''.env'')) =
           [str ''PORT=3000'']"
    unfolding otherLines_def fileContent_def using l
    by (simp add: definesKey_def) (simp add: str_def)
  show ?thesis
    using writeDatabaseUrl_defining_lines [OF v url_noLT, of ?fs] d o by simp
qed

text \<open>
  The claim as the specification words it (exactly one defining line after an upsert,
  for every initial content) fails on a file that defines the key twice: the expression
  has no \<open>g\<close> flag, so only the first definition is replaced.
\<close>

theorem writeDatabaseUrl_second_definition_kept:
  "length (definingLines (str ''DATABASE_URL'')
     (fileContent
        (writeDatabaseUrl (str ''postgres://u:p@h/d'')
           \<lparr>envPath = str ''.env'', variableName = str ''DATABASE_URL''\<rparr>
           [str ''.env'' \<mapsto> str ''DATABASE_URL=a\<newline>DATABASE_URL=b''])
        (str ''.env''))) = 2"
  by (simp add: writeDatabaseUrl_def fileContent_def upsertContent_def definingLines_def
      definesKey_def str_def isLineTerminator_def endsWith_def)

lemma twice_count:
  assumes "validVariableName key" and "\<forall>c\<in>set v. \<not> isLineTerminator c"
    and "length (definingLines key s) \<le> 1"
  shows "count_list (splitLines (upsertContent key v (upsertContent key v s)))
           (key @ str ''='' @ v) = 1"
proof -
  let ?p = "key @ str ''=''"
  let ?c1 = "upsertContent key v s"
  have n1: "length (definingLines key ?c1) = 1"
    using count_upsert [OF assms(1) assms(2), of s] assms(3) by simp
  then have "execAssign ?p True ?c1 \<noteq> None"
    using exec_None_definingLines [OF assms(1), of ?c1] by auto
  then obtain b m a where e: "execAssign ?p True ?c1 = Some (b, m, a)"
    by (cases "execAssign ?p True ?c1") auto
  note l = lines_replace [OF e assms(2) assms(1)]
  have "length (filter (definesKey key) (butlast (splitLines b))) +
        length (filter (definesKey key) (tl (splitLines a))) = 0"
    using n1 l(3) unfolding definingLines_def l(1) by (simp add: definesKey_def)
  then have f: "filter (definesKey key) (butlast (splitLines b)) = []"
    and g: "filter (definesKey key) (tl (splitLines a)) = []"
    by simp_all
  have d: "definesKey key (?p @ v)"
    by (simp add: definesKey_def)
  have "?p @ v \<notin> set (butlast (splitLines b))"
    using f d by (auto simp: filter_empty_conv)
  moreover have "?p @ v \<notin> set (tl (splitLines a))"
    using g d by (auto simp: filter_empty_conv)
  ultimately have "count_list (splitLines (upsertContent key v ?c1)) (?p @ v) = 1"
    unfolding l(2) by (simp add: count_list_0_iff)
  then show ?thesis by simp
qed

lemma twice_same:
  assumes "validVariableName key" and "\<forall>c\<in>set v. \<not> isLineTerminator c"
    and "0x24 \<notin> set v \<or> definingLines key s \<noteq> []"
  shows "upsertContent key v (upsertContent key v s) = upsertContent key v s"
proof (cases "execAssign (key @ str ''='') True s")
  case None
  then have "definingLines key s = []"
    using exec_None_definingLines [OF assms(1), of s] by simp
  with assms(3) have "doubleDollars v = v"
    by (simp add: doubleDollars_id)
  then show ?thesis
    using twice_append [OF None assms(1) assms(2)] upsertContent_append [OF None, of v]
    by simp
next
  case (Some r)
  obtain b m a where "r = (b, m, a)" by (cases r) auto
  with Some show ?thesis
    using twice_replace [OF _ assms(1) assms(2)] by blast
qed

lemma append_verbatim_without_dollar:
  assumes "validVariableName key" and "definingLines key s = []" and "0x24 \<notin> set v"
    and "s \<noteq> []" and "\<not> endsWith s (str ''\<newline>'')"
  shows "upsertContent key v s =
         s @ str ''\<newline>\<newline># Database Configuration\<newline>'' @ key @ str ''='' @ v @ str ''\<newline>''"
proof -
  have "execAssign (key @ str ''='') True s = None"
    using exec_None_definingLines [OF assms(1), of s] assms(2) by simp
  then show ?thesis
    using upsertContent_append [of key s v] assms(3,4,5)
    by (simp add: doubleDollars_id separated_def str_def)
qed

text \<open>
  C1 (as the code has it): for a valid variable name and a value \<open>V\<close> without a line
  terminator, two calls of \<open>writeDatabaseUrl\<close> in a row leave exactly one line equal to
  \<open>KEY=V\<close> when the file had at most one line defining the key (or did not exist);
  and the content after the second call is the content after the first when the file
  defined the key before the first call or \<open>V\<close> has no dollar sign.
\<close>

theorem writeDatabaseUrl_twice:
  assumes "validVariableName (variableName config)"
    and "\<forall>c\<in>set databaseUrl. \<not> isLineTerminator c"
  shows "(length (definingLines (variableName config) (fileContent fs (envPath config))) \<le> 1 \<longrightarrow>
          count_list
            (splitLines (fileContent
               (writeDatabaseUrl databaseUrl config (writeDatabaseUrl databaseUrl config fs))
               (envPath config)))
            (variableName config @ str ''='' @ databaseUrl) = 1) \<and>
         (0x24 \<notin> set databaseUrl \<or>
          definingLines (variableName config) (fileContent fs (envPath config)) \<noteq> [] \<longrightarrow>
          writeDatabaseUrl databaseUrl config (writeDatabaseUrl databaseUrl config fs)
            (envPath config) =
          writeDatabaseUrl databaseUrl config fs (envPath config))"
  using twice_count [OF assms, of "fileContent fs (envPath config)"]
    twice_same [OF assms, of "fileContent fs (envPath config)"]
  by (simp add: written_content written_some)

theorem writeDatabaseUrl_twice_witness:
  "count_list
     (splitLines (fileContent
        (writeDatabaseUrl (str ''postgres://u:p@h/d'')
           \<lparr>envPath = str ''.env'', variableName = str ''DATABASE_URL''\<rparr>
           (writeDatabaseUrl (str ''postgres://u:p@h/d'')
              \<lparr>envPath = str ''.env'', variableName = str ''DATABASE_URL''\<rparr> Map.empty))
        (str ''.env'')))
     (str ''DATABASE_URL=postgres://u:p@h/d'') = 1 \<and>
   writeDatabaseUrl (str ''postgres://u:p@h/d'')
     \<lparr>envPath = str ''.env'', variableName = str ''DATABASE_URL''\<rparr>
     (writeDatabaseUrl (str ''postgres://u:p@h/d'')
        \<lparr>envPath = str ''.env'', variableName = str ''DATABASE_URL''\<rparr> Map.empty)
     (str ''.env'') =
   writeDatabaseUrl (str ''postgres://u:p@h/d'')
     \<lparr>envPath = str ''.env'', variableName = str ''DATABASE_URL''\<rparr> Map.empty (str ''.env'')"
proof -
  let ?c = "\<lparr>envPath = str ''.env'', variableName = str ''DATABASE_URL''\<rparr>"
  have v: "validVariableName (variableName ?c)"
    using valid_DATABASE_URL by simp
  have d: "definingLines (variableName ?c) (fileContent Map.empty (envPath ?c)) = []"
    by (simp add: definingLines_def fileContent_def definesKey_def str_def)
  have n: "0x24 \<notin> set (str ''postgres://u:p@h/d'')"
    by (simp add: str_def)
  have k: "variableName ?c @ str ''='' @ str ''postgres://u:p@h/d'' =
           str ''DATABASE_URL=postgres://u:p@h/d''"
    by (simp add: str_def)
  show ?thesis
    using writeDatabaseUrl_twice [OF v url_noLT, of Map.empty] d n k by simp
qed

text \<open>
  The claim as the specification words it (exactly one line equal to \<open>KEY=V\<close> after
  two upserts, for every file) fails on a file with two definitions of the key, the
  second of which is already \<open>KEY=V\<close>: the first is rewritten, the second stays.
\<close>

theorem writeDatabaseUrl_twice_two_equal_lines:
  "count_list
     (splitLines (fileContent
        (writeDatabaseUrl (str ''postgres://u:p@h/d'')
           \<lparr>envPath = str ''.env'', variableName = str ''DATABASE_URL''\<rparr>
           (writeDatabaseUrl (str ''postgres://u:p@h/d'')
              \<lparr>envPath = str ''.env'', variableName = str ''DATABASE_URL''\<rparr>
              [str ''.env'' \<mapsto> str ''DATABASE_URL=old\<newline>DATABASE_URL=postgres://u:p@h/d'']))
        (str ''.env'')))
     (str ''DATABASE_URL=postgres://u:p@h/d'') = 2"
  by (simp add: writeDatabaseUrl_def fileContent_def upsertContent_def
      str_def isLineTerminator_def endsWith_def)

text \<open>
  C3: a key that is absent from a non-empty file without a final newline is appended
  after a blank line and the comment. The value written is \<open>escapedUrl\<close>, made for the
  replacement template of the other branch, so a dollar sign of the value is written
  twice: at this input the content is not
  \<open>original + "\n\n# Database Configuration\n" + "KEY=VALUE\n"\<close>.
\<close>

theorem writeDatabaseUrl_append_doubles_dollar:
  "writeDatabaseUrl (str ''postgres://u:p$w@h/d'')
     \<lparr>envPath = str ''.env'', variableName = str ''DATABASE_URL''\<rparr>
     [str ''.env'' \<mapsto> str ''PORT=3000''] (str ''.env'') =
   Some (str ''PORT=3000\<newline>\<newline># Database Configuration\<newline>DATABASE_URL=postgres://u:p$$w@h/d\<newline>'') \<and>
   writeDatabaseUrl (str ''postgres://u:p$w@h/d'')
     \<lparr>envPath = str ''.env'', variableName = str ''DATABASE_URL''\<rparr>
     [str ''.env'' \<mapsto> str ''PORT=3000''] (str ''.env'') \<noteq>
   Some (str ''PORT=3000'' @ str ''\<newline>\<newline># Database Configuration\<newline>'' @
         str ''DATABASE_URL=postgres://u:p$w@h/d\<newline>'')"
  by (simp add: writeDatabaseUrl_def upsertContent_def str_def isLineTerminator_def endsWith_def
      suffix_to_prefix)

section \<open>The configuration dialogue: results\<close>

lemma testAssign_exec: "testAssign p bol s \<longleftrightarrow> execAssign p bol s \<noteq> None"
  by (induction s arbitrary: bol) auto

lemma testAssign_definingLines:
  assumes "validVariableName key"
  shows "testAssign (key @ str ''='') True s \<longleftrightarrow> definingLines key s \<noteq> []"
  using exec_None_definingLines [OF assms, of s] by (simp add: testAssign_exec)

text \<open>
  C7: when the target file defines the chosen variable and the user declines the
  overwrite confirmation, \<open>getEnvConfig\<close> exits with code 0, and so does
  \<open>setupEnvironment\<close>, with the file system as it was: nothing is written, neither
  the target nor a backup.
\<close>

theorem getEnvConfig_decline:
  assumes "validVariableName (chosenName ans)"
    and "fs (resolve (chosenPath ans)) = Some content"
    and "definingLines (chosenName ans) content \<noteq> []"
    and "\<not> shouldOverwrite ans"
    and "validateConnectionString databaseUrl"
  shows "getEnvConfig resolve ans fs = Exited 0 \<and>
         setupEnvironment resolve ans databaseUrl fs = (Exited 0, fs, [])"
proof -
  have "testAssign (chosenName ans @ str ''='') True content"
    using testAssign_definingLines [OF assms(1), of content] assms(3) by simp
  then have "getEnvConfig resolve ans fs = Exited 0"
    using assms(2) assms(4) by (simp add: getEnvConfig_def)
  then show ?thesis
    using assms(5) by (simp add: setupEnvironment_def)
qed

theorem getEnvConfig_decline_witness:
  "getEnvConfig (\<lambda>p. str ''/app/'' @ p)
     \<lparr>envPathChoice = str ''.env'', customPath = [], variableNameChoice = str ''DATABASE_URL'',
      customName = [], shouldOverwrite = False\<rparr>
     [str ''/app/.env'' \<mapsto> str ''DATABASE_URL=old''] = Exited 0 \<and>
   setupEnvironment (\<lambda>p. str ''/app/'' @ p)
     \<lparr>envPathChoice = str ''.env'', customPath = [], variableNameChoice = str ''DATABASE_URL'',
      customName = [], shouldOverwrite = False\<rparr>
     (str ''postgres://u:p@h/d'')
     [str ''/app/.env'' \<mapsto> str ''DATABASE_URL=old''] =
   (Exited 0, [str ''/app/.env'' \<mapsto> str ''DATABASE_URL=old''], [])"
proof -
  let ?ans = "\<lparr>envPathChoice = str ''.env'', customPath = [],
    variableNameChoice = str ''DATABASE_URL'', customName = [], shouldOverwrite = False\<rparr>"
  let ?fs = "[str ''/app/.env'' \<mapsto> str ''DATABASE_URL=old'']"
  have n: "chosenName ?ans = str ''DATABASE_URL''"
    by (simp add: chosenName_def str_def)
  have p: "str ''/app/'' @ chosenPath ?ans = str ''/app/.env''"
    by (simp add: chosenPath_def str_def)
  have a: "validVariableName (chosenName ?ans)"
    using valid_DATABASE_URL n by simp
  have b: "?fs ((\<lambda>p. str ''/app/'' @ p) (chosenPath ?ans)) = Some (str ''DATABASE_URL=old'')"
    using p by simp
  have c: "definingLines (chosenName ?ans) (str ''DATABASE_URL=old'') \<noteq> []"
    unfolding n by (simp add: definingLines_def definesKey_def str_def isLineTerminator_def)
  have d: "\<not> shouldOverwrite ?ans" by simp
  have e: "validateConnectionString (str ''postgres://u:p@h/d'')"
    by (simp add: validateConnectionString_def schemeSeparator_def dotPlus_def str_def
        isLineTerminator_def)
  show ?thesis
    using getEnvConfig_decline
      [where ans = ?ans and fs = ?fs and resolve = "\<lambda>p. str ''/app/'' @ p"
        and content = "str ''DATABASE_URL=old''" and databaseUrl = "str ''postgres://u:p@h/d''"]
      a b c d e
    by blast
qed

section \<open>The first run: results\<close>

text \<open>
  C10: \<open>initializeEnvFile\<close> changes the file system only in a state where
  \<open>.env.example\<close> exists and \<open>.env\<close> does not, and the change is the copy of the
  one to the other; an \<open>.env\<close> that exists is left as it is; no path other than
  \<open>.env\<close> is ever touched.
\<close>

theorem initializeEnvFile_frame:
  "(initializeEnvFile permitted fs \<noteq> fs \<longrightarrow>
      fs (str ''.env.example'') \<noteq> None \<and> fs (str ''.env'') = None \<and>
      initializeEnvFile permitted fs = fs(str ''.env'' := fs (str ''.env.example''))) \<and>
   (fs (str ''.env'') \<noteq> None \<longrightarrow> initializeEnvFile permitted fs = fs) \<and>
   (\<forall>p. p \<noteq> str ''.env'' \<longrightarrow> initializeEnvFile permitted fs p = fs p) \<and>
   (fs (str ''.env.example'') \<noteq> None \<and> fs (str ''.env'') = None \<and> permitted \<longrightarrow>
      initializeEnvFile permitted fs (str ''.env'') = fs (str ''.env.example''))"
  by (auto simp: initializeEnvFile_def copyFileSync_def split: option.splits)

theorem initializeEnvFile_frame_witness:
  "initializeEnvFile True [str ''.env.example'' \<mapsto> str ''PORT=3000''] (str ''.env'') =
     Some (str ''PORT=3000'') \<and>
   initializeEnvFile True [str ''.env.example'' \<mapsto> str ''PORT=3000''] (str ''.env.example'') =
     Some (str ''PORT=3000'') \<and>
   initializeEnvFile True [str ''.env.example'' \<mapsto> str ''PORT=3000'', str ''.env'' \<mapsto> str ''A=1''] =
     [str ''.env.example'' \<mapsto> str ''PORT=3000'', str ''.env'' \<mapsto> str ''A=1'']"
proof -
  let ?fs = "[str ''.env.example'' \<mapsto> str ''PORT=3000'']"
  let ?gs = "[str ''.env.example'' \<mapsto> str ''PORT=3000'', str ''.env'' \<mapsto> str ''A=1'']"
  have ne: "str ''.env.example'' \<noteq> str ''.env''"
    by (simp add: str_def)
  have a: "?fs (str ''.env.example'') \<noteq> None \<and> ?fs (str ''.env'') = None \<and> True"
    using ne by simp
  have "initializeEnvFile True ?fs (str ''.env'') = ?fs (str ''.env.example'')"
    using initializeEnvFile_frame [of True ?fs] a by blast
  moreover have "initializeEnvFile True ?fs (str ''.env.example'') = ?fs (str ''.env.example'')"
    using initializeEnvFile_frame [of True ?fs] ne by blast
  moreover have "?gs (str ''.env'') \<noteq> None" by simp
  then have "initializeEnvFile True ?gs = ?gs"
    using initializeEnvFile_frame [of True ?gs] by blast
  ultimately show ?thesis by simp
qed

section \<open>Showing the connection string: results\<close>

lemma matchMaskAt_miss: "c \<noteq> 0x3A \<Longrightarrow> matchMaskAt (c # s) = None"
  by (simp add: matchMaskAt_def str_def)

lemma execMask_skip:
  "0x3A \<notin> set x \<Longrightarrow>
   execMask (x @ y) = map_option (\<lambda>(b, caps, m, a). (x @ b, caps, m, a)) (execMask y)"
proof (induction x)
  case Nil
  then show ?case by (simp add: option.map_ident)
next
  case (Cons c x)
  then show ?case
    by (simp add: matchMaskAt_miss option.map_comp comp_def case_prod_unfold)
qed

lemma matchMaskAt_hit:
  assumes "user \<noteq> []" and "0x3A \<notin> set user" and "password \<noteq> []" and "0x40 \<notin> set password"
  shows "matchMaskAt (str ''://'' @ user @ 0x3A # password @ 0x40 # rest) =
         Some ([str ''://'', user, password],
               str ''://'' @ user @ [0x3A] @ password @ [0x40], rest)"
proof -
  have u: "\<forall>c\<in>set user. c \<noteq> 0x3A" using assms(2) by auto
  have p: "\<forall>c\<in>set password. c \<noteq> 0x40" using assms(4) by auto
  have t1: "takeWhile (\<lambda>c. c \<noteq> 0x3A) (user @ 0x3A # password @ 0x40 # rest) = user"
    using u by (simp add: takeWhile_append2)
  have d1: "dropWhile (\<lambda>c. c \<noteq> 0x3A) (user @ 0x3A # password @ 0x40 # rest) =
            0x3A # password @ 0x40 # rest"
    using u by (simp add: dropWhile_append2)
  have t2: "takeWhile (\<lambda>c. c \<noteq> 0x40) (password @ 0x40 # rest) = password"
    using p by (simp add: takeWhile_append2)
  have d2: "dropWhile (\<lambda>c. c \<noteq> 0x40) (password @ 0x40 # rest) = 0x40 # rest"
    using p by (simp add: dropWhile_append2)
  have "prefix (str ''://'') (str ''://'' @ user @ 0x3A # password @ 0x40 # rest)"
    by simp
  moreover have "drop 3 (str ''://'' @ user @ 0x3A # password @ 0x40 # rest) =
                 user @ 0x3A # password @ 0x40 # rest"
    by (simp add: str_def)
  ultimately show ?thesis
    unfolding matchMaskAt_def using t1 d1 t2 d2 assms(1) assms(3)
    by (simp add: Let_def)
qed

lemma mask_template:
  "getSubstitution m b a [s, u, p] (str ''$1$2:***@'') = s @ u @ str '':***@''"
  by (simp add: str_def isDigit_def digitVal_def capture_def)

lemma execMask_userinfo:
  assumes "0x3A \<notin> set scheme" and "user \<noteq> []" and "0x3A \<notin> set user"
    and "password \<noteq> []" and "0x40 \<notin> set password"
  shows "execMask (scheme @ str ''://'' @ user @ str '':'' @ password @ str ''@'' @ rest) =
         Some (scheme, [str ''://'', user, password],
               str ''://'' @ user @ [0x3A] @ password @ [0x40], rest)"
proof -
  let ?t = "str ''://'' @ user @ 0x3A # password @ 0x40 # rest"
  have c: "?t = 0x3A # (str ''//'' @ user @ 0x3A # password @ 0x40 # rest)"
    by (simp add: str_def)
  have "execMask ?t = Some ([], [str ''://'', user, password],
          str ''://'' @ user @ [0x3A] @ password @ [0x40], rest)"
    using matchMaskAt_hit [OF assms(2-5), of rest]
    by (subst c, simp only: execMask.simps) (simp add: c [symmetric])
  then have e: "execMask (scheme @ ?t) = Some (scheme, [str ''://'', user, password],
          str ''://'' @ user @ [0x3A] @ password @ [0x40], rest)"
    using execMask_skip [OF assms(1), of ?t] by simp
  have u: "scheme @ str ''://'' @ user @ str '':'' @ password @ str ''@'' @ rest =
           scheme @ ?t"
    by (simp add: str_def)
  show ?thesis
    unfolding u by (rule e)
qed

lemma maskedUrl_userinfo:
  assumes "0x3A \<notin> set scheme" and "user \<noteq> []" and "0x3A \<notin> set user"
    and "password \<noteq> []" and "0x40 \<notin> set password"
  shows "maskedUrl (scheme @ str ''://'' @ user @ str '':'' @ password @ str ''@'' @ rest) =
         scheme @ str ''://'' @ user @ str '':***@'' @ rest"
proof -
  have "maskedUrl (scheme @ str ''://'' @ user @ str '':'' @ password @ str ''@'' @ rest) =
        scheme @ (str ''://'' @ user @ str '':***@'') @ rest"
    unfolding maskedUrl_def execMask_userinfo [OF assms]
    by (simp only: option.case prod.case mask_template)
  then show ?thesis by simp
qed

lemma written_line:
  assumes "validVariableName key" and "\<forall>c\<in>set v. \<not> isLineTerminator c"
    and "0x24 \<notin> set v \<or> definingLines key s \<noteq> []"
  shows "key @ str ''='' @ v \<in> set (splitLines (upsertContent key v s))"
proof (cases "execAssign (key @ str ''='') True s")
  case None
  then have "definingLines key s = []"
    using exec_None_definingLines [OF assms(1), of s] by simp
  with assms(3) have "doubleDollars v = v"
    by (simp add: doubleDollars_id)
  then show ?thesis
    using lines_append [OF None assms(2) assms(1)] by simp
next
  case (Some r)
  obtain b m a where "r = (b, m, a)" by (cases r) auto
  with Some have "execAssign (key @ str ''='') True s = Some (b, m, a)" by simp
  from lines_replace(2) [OF this assms(2) assms(1)] show ?thesis by simp
qed

text \<open>
  Where the expression matches: the scheme has no colon, the user is not empty and has
  no colon, the password is not empty and has no \<open>@\<close>. Then the password is
  printed as \<open>***\<close>, and \<open>writeDatabaseUrl\<close> puts the line \<open>KEY=value\<close>
  with the value as given into the file (for a valid name and a value of one line that
  has no dollar sign, or whose key the file already defines).
\<close>

lemma showDatabaseUrl_masks_userinfo:
  assumes "0x3A \<notin> set scheme" and "user \<noteq> []" and "0x3A \<notin> set user"
    and "password \<noteq> []" and "0x40 \<notin> set password"
    and "databaseUrl = scheme @ str ''://'' @ user @ str '':'' @ password @ str ''@'' @ rest"
  shows "showDatabaseUrl databaseUrl name =
           [[0x000A, 0x2705] @ str '' Database configured successfully!'',
            str ''\<newline>'' @ name @ str ''='' @ scheme @ str ''://'' @ user @ str '':***@'' @ rest] \<and>
         (validVariableName (variableName config) \<and>
          (\<forall>c\<in>set databaseUrl. \<not> isLineTerminator c) \<and>
          (0x24 \<notin> set databaseUrl \<or>
           definingLines (variableName config) (fileContent fs (envPath config)) \<noteq> []) \<longrightarrow>
          variableName config @ str ''='' @ databaseUrl \<in>
            set (splitLines (fileContent (writeDatabaseUrl databaseUrl config fs) (envPath config))))"
  using maskedUrl_userinfo [OF assms(1-5), of rest] assms(6)
    written_line [of "variableName config" databaseUrl "fileContent fs (envPath config)"]
  by (auto simp: showDatabaseUrl_def written_content)

text \<open>
  C8: \<open>showDatabaseUrl\<close> is to print the connection string with its password
  masked (its comments: masked for security; mask the password in the connection
  string for display). For a connection string with an empty user, which
  \<open>validateConnectionString\<close> accepts, \<open>[^:]+\<close> finds no code unit, the
  expression matches nowhere, and the line printed shows the password.
\<close>

theorem showDatabaseUrl_empty_user_not_masked:
  "str ''postgres://:secret@host/db'' =
     str ''postgres'' @ str ''://'' @ [] @ str '':'' @ str ''secret'' @ str ''@'' @ str ''host/db'' \<and>
   validateConnectionString (str ''postgres://:secret@host/db'') \<and>
   showDatabaseUrl (str ''postgres://:secret@host/db'') (str ''DATABASE_URL'') =
     [[0x000A, 0x2705] @ str '' Database configured successfully!'',
      str ''\<newline>DATABASE_URL=postgres://:secret@host/db'']"
  by (simp add: showDatabaseUrl_def maskedUrl_def matchMaskAt_def str_def
      validateConnectionString_def schemeSeparator_def dotPlus_def isLineTerminator_def)

section \<open>Waiting for a provider: results\<close>

lemma renderPoll_not_ready:
  assumes "\<forall>k. reportsNotReady (statusCheck k)"
  shows "attempts \<le> maxAttempts \<Longrightarrow>
         renderPoll statusCheck False attempts calls =
         (TimedOut, calls + (maxAttempts - attempts))"
proof (induction "maxAttempts - attempts" arbitrary: attempts calls)
  case 0
  then show ?case by (subst renderPoll.simps) simp
next
  case (Suc n)
  then have lt: "attempts < maxAttempts" and n: "n = maxAttempts - (attempts + 1)"
    by simp_all
  have ih: "renderPoll statusCheck False (attempts + 1) (calls + 1) =
            (TimedOut, calls + 1 + (maxAttempts - (attempts + 1)))"
    using Suc.hyps(1) [OF n] lt by simp
  from assms have "reportsNotReady (statusCheck calls)" by simp
  then show ?case
    using lt ih
    by (subst renderPoll.simps) (auto simp: reportsNotReady_def split: status_result.splits)
qed

lemma renderPoll_ready_at:
  "\<forall>i<d. reportsNotReady (statusCheck (calls + i)) \<Longrightarrow>
   reportsReady (statusCheck (calls + d)) \<Longrightarrow> attempts + d < maxAttempts \<Longrightarrow>
   renderPoll statusCheck False attempts calls = (Ready, calls + d + 1)"
proof (induction d arbitrary: attempts calls)
  case 0
  then obtain s where s: "statusCheck calls = Status s" "s = str ''available''"
    by (auto simp: reportsReady_def split: status_result.splits)
  have "renderPoll statusCheck True (attempts + 1) (calls + 1) = (Ready, calls + 1)"
    by (subst renderPoll.simps) simp
  then show ?case
    using 0 s by (subst renderPoll.simps) simp
next
  case (Suc d)
  have a: "\<forall>i<d. reportsNotReady (statusCheck (calls + 1 + i))"
  proof (intro allI impI)
    fix i assume "i < d"
    then have "Suc i < Suc d" by simp
    with Suc.prems(1) have "reportsNotReady (statusCheck (calls + Suc i))" by blast
    then show "reportsNotReady (statusCheck (calls + 1 + i))" by simp
  qed
  have b: "reportsReady (statusCheck (calls + 1 + d))"
    using Suc.prems(2) by simp
  have c: "attempts + 1 + d < maxAttempts"
    using Suc.prems(3) by simp
  have ih: "renderPoll statusCheck False (attempts + 1) (calls + 1) = (Ready, calls + 1 + d + 1)"
    by (rule Suc.IH [OF a b c])
  have "reportsNotReady (statusCheck (calls + 0))"
    using Suc.prems(1) by blast
  then have "reportsNotReady (statusCheck calls)" by simp
  then show ?case
    using Suc.prems(3) ih
    by (subst renderPoll.simps) (auto simp: reportsNotReady_def split: status_result.splits)
qed

lemma railwayPoll_not_ready:
  assumes "\<forall>k. \<not> truthy (public (getDatabaseUrls k))"
  shows "attempt \<le> Suc maxRetries \<Longrightarrow> \<not> truthy (public us) \<Longrightarrow>
         snd (railwayPoll getDatabaseUrls attempt us calls) = calls + (Suc maxRetries - attempt) \<and>
         \<not> truthy (public (fst (railwayPoll getDatabaseUrls attempt us calls)))"
proof (induction "Suc maxRetries - attempt" arbitrary: attempt us calls)
  case 0
  then show ?case by (subst (1 2) railwayPoll.simps) simp
next
  case (Suc n)
  then have le: "attempt \<le> maxRetries" and n: "n = Suc maxRetries - (attempt + 1)"
    by simp_all
  have nt: "\<not> truthy (public (getDatabaseUrls calls))"
    using assms by simp
  have ih: "snd (railwayPoll getDatabaseUrls (attempt + 1) (getDatabaseUrls calls) (calls + 1)) =
              calls + 1 + (Suc maxRetries - (attempt + 1)) \<and>
            \<not> truthy (public (fst (railwayPoll getDatabaseUrls (attempt + 1)
                (getDatabaseUrls calls) (calls + 1))))"
    using Suc.hyps(1) [OF n _ nt] le by simp
  have "railwayPoll getDatabaseUrls attempt us calls =
        railwayPoll getDatabaseUrls (attempt + 1) (getDatabaseUrls calls) (calls + 1)"
    using le nt by (subst railwayPoll.simps) (simp add: Let_def)
  then show ?case
    using ih le by simp
qed

lemma railwayPoll_ready_at:
  "\<forall>i<d. \<not> truthy (public (getDatabaseUrls (calls + i))) \<Longrightarrow>
   truthy (public (getDatabaseUrls (calls + d))) \<Longrightarrow> attempt + d \<le> maxRetries \<Longrightarrow>
   railwayPoll getDatabaseUrls attempt us calls = (getDatabaseUrls (calls + d), calls + d + 1)"
proof (induction d arbitrary: attempt us calls)
  case 0
  then show ?case by (subst railwayPoll.simps) (simp add: Let_def)
next
  case (Suc d)
  have a: "\<forall>i<d. \<not> truthy (public (getDatabaseUrls (calls + 1 + i)))"
  proof (intro allI impI)
    fix i assume "i < d"
    then have "Suc i < Suc d" by simp
    with Suc.prems(1) have "\<not> truthy (public (getDatabaseUrls (calls + Suc i)))" by blast
    then show "\<not> truthy (public (getDatabaseUrls (calls + 1 + i)))" by simp
  qed
  have b: "truthy (public (getDatabaseUrls (calls + 1 + d)))"
    using Suc.prems(2) by simp
  have c: "attempt + 1 + d \<le> maxRetries"
    using Suc.prems(3) by simp
  have "\<not> truthy (public (getDatabaseUrls (calls + 0)))"
    using Suc.prems(1) by blast
  then have nt: "\<not> truthy (public (getDatabaseUrls calls))" by simp
  have "railwayPoll getDatabaseUrls attempt us calls =
        railwayPoll getDatabaseUrls (attempt + 1) (getDatabaseUrls calls) (calls + 1)"
    using Suc.prems(3) nt by (subst railwayPoll.simps) (simp add: Let_def)
  then show ?case
    using Suc.IH [OF a b c, of "getDatabaseUrls calls"] by simp
qed

lemma renderWait_not_ready:
  assumes "\<forall>k. reportsNotReady (statusCheck k)"
  shows "renderWait statusCheck = (TimedOut, 60)"
  using renderPoll_not_ready [OF assms, of 0 0]
  by (simp add: renderWait_def maxAttempts_def)

lemma renderWait_ready_at:
  assumes "\<forall>i<k. reportsNotReady (statusCheck i)" and "reportsReady (statusCheck k)"
    and "k < 60"
  shows "renderWait statusCheck = (Ready, Suc k)"
  using renderPoll_ready_at [of k statusCheck 0 0] assms
  by (simp add: renderWait_def maxAttempts_def)

lemma railwayFetch_not_ready:
  assumes "\<forall>k. \<not> truthy (public (getDatabaseUrls k))"
  shows "railwayFetch getDatabaseUrls = (Exited 1, 5)"
proof -
  let ?r = "railwayPoll getDatabaseUrls 1 \<lparr>internal = None, public = None\<rparr> 0"
  have "snd ?r = 5 \<and> \<not> truthy (public (fst ?r))"
    using railwayPoll_not_ready [OF assms, of 1 "\<lparr>internal = None, public = None\<rparr>" 0]
    by (simp add: maxRetries_def truthy_def)
  then show ?thesis
    by (cases ?r) (auto simp: railwayFetch_def truthy_def split: option.splits)
qed

lemma railwayFetch_ready_at:
  assumes "\<forall>i<k. \<not> truthy (public (getDatabaseUrls i))"
    and "public (getDatabaseUrls k) = Some u" and "u \<noteq> []" and "k < 5"
  shows "railwayFetch getDatabaseUrls = (Returned u, Suc k)"
proof -
  have "railwayPoll getDatabaseUrls 1 \<lparr>internal = None, public = None\<rparr> 0 =
        (getDatabaseUrls (0 + k), 0 + k + 1)"
    using railwayPoll_ready_at [of k getDatabaseUrls 0 1 "\<lparr>internal = None, public = None\<rparr>"]
      assms
    by (simp add: maxRetries_def truthy_def)
  then show ?thesis
    using assms(2,3) by (simp add: railwayFetch_def)
qed

text \<open>
  C5: both loops are total functions. When every status check reports not-ready, Render's
  loop makes exactly 60 checks and Railway's exactly 5, and each ends not-ready (which
  the callers turn into exit code 1). When the check with index \<open>k\<close> (the attempt
  \<open>k + 1\<close>, within the maximum) is the first that reports ready, the loop ends ready
  after exactly \<open>k + 1\<close> checks.
\<close>

theorem polling_bounded:
  "((\<forall>k. reportsNotReady (statusCheck k)) \<longrightarrow> renderWait statusCheck = (TimedOut, 60)) \<and>
   ((\<forall>i<k. reportsNotReady (statusCheck i)) \<and> reportsReady (statusCheck k) \<and> k < 60 \<longrightarrow>
      renderWait statusCheck = (Ready, Suc k)) \<and>
   ((\<forall>k. \<not> truthy (public (getDatabaseUrls k))) \<longrightarrow>
      railwayFetch getDatabaseUrls = (Exited 1, 5)) \<and>
   ((\<forall>i<k. \<not> truthy (public (getDatabaseUrls i))) \<and>
      public (getDatabaseUrls k) = Some u \<and> u \<noteq> [] \<and> k < 5 \<longrightarrow>
      railwayFetch getDatabaseUrls = (Returned u, Suc k))"
  using renderWait_not_ready [of statusCheck] renderWait_ready_at [of k statusCheck]
    railwayFetch_not_ready [of getDatabaseUrls] railwayFetch_ready_at [of k getDatabaseUrls u]
  by blast

theorem polling_bounded_witness:
  "renderWait (\<lambda>k. NonZeroExit) = (TimedOut, 60) \<and>
   renderWait (\<lambda>k. if k = 3 then Status (str ''available'') else Status (str ''creating'')) =
     (Ready, 4) \<and>
   railwayFetch (\<lambda>k. \<lparr>internal = None, public = None\<rparr>) = (Exited 1, 5) \<and>
   railwayFetch (\<lambda>k. \<lparr>internal = None,
       public = (if k = 2 then Some (str ''postgres://u:p@h/d'') else None)\<rparr>) =
     (Returned (str ''postgres://u:p@h/d''), 3)"
proof -
  let ?s = "\<lambda>k::nat. if k = 3 then Status (str ''available'') else Status (str ''creating'')"
  let ?g = "\<lambda>k::nat. \<lparr>internal = None,
       public = (if k = 2 then Some (str ''postgres://u:p@h/d'') else None)\<rparr>"
  have ne: "str ''creating'' \<noteq> str ''available''"
    by (simp add: str_def)
  have a: "\<forall>k. reportsNotReady ((\<lambda>k. NonZeroExit) k)"
    by (simp add: reportsNotReady_def)
  have b: "(\<forall>i<3. reportsNotReady (?s i)) \<and> reportsReady (?s 3) \<and> (3::nat) < 60"
    using ne by (simp add: reportsNotReady_def reportsReady_def)
  have c: "\<forall>k. \<not> truthy (public ((\<lambda>k. \<lparr>internal = None, public = None\<rparr>) k))"
    by (simp add: truthy_def)
  have d: "(\<forall>i<2. \<not> truthy (public (?g i))) \<and>
           public (?g 2) = Some (str ''postgres://u:p@h/d'') \<and>
           str ''postgres://u:p@h/d'' \<noteq> [] \<and> (2::nat) < 5"
    by (simp add: truthy_def str_def)
  have "renderWait (\<lambda>k. NonZeroExit) = (TimedOut, 60)"
    using polling_bounded [of "\<lambda>k. NonZeroExit"] a by blast
  moreover have "renderWait ?s = (Ready, Suc 3)"
    using polling_bounded [of ?s 3] b by blast
  moreover have "railwayFetch (\<lambda>k. \<lparr>internal = None, public = None\<rparr>) = (Exited 1, 5)"
    using polling_bounded [of _ _ "\<lambda>k. \<lparr>internal = None, public = None\<rparr>"] c by blast
  moreover have "railwayFetch ?g = (Returned (str ''postgres://u:p@h/d''), Suc 2)"
    using polling_bounded [of _ 2 ?g "str ''postgres://u:p@h/d''"] d by blast
  ultimately show ?thesis by simp
qed

section \<open>Generated passwords: results\<close>

lemma chars_alphanumeric: "\<forall>c\<in>set chars. isAsciiLetter c \<or> isDigit c"
  by (simp add: chars_def str_def isAsciiLetter_def isDigit_def)

lemma length_chars: "length chars = 62"
  by (simp add: chars_def str_def)

lemma excessBits_le: "M < 2 ^ (53 + j) \<Longrightarrow> excessBits M \<le> j"
proof (induction j arbitrary: M)
  case 0
  then show ?case by (subst excessBits.simps) simp
next
  case (Suc j)
  show ?case
  proof (cases "M < 2 ^ 53")
    case True
    then show ?thesis by (subst excessBits.simps) simp
  next
    case False
    have "(2::nat) ^ (53 + Suc j) = 2 ^ (53 + j) * 2"
      by (simp only: add_Suc_right power_Suc mult.commute)
    with Suc.prems have "M < 2 ^ (53 + j) * 2"
      by (simp only:)
    then have "M div 2 < 2 ^ (53 + j)"
      by (rule less_mult_imp_div_less)
    then have "excessBits (M div 2) \<le> j"
      by (rule Suc.IH)
    then show ?thesis
      using False by (subst excessBits.simps) simp
  qed
qed

lemma round_up_bound:
  fixes q r p M :: nat
  assumes "M = q * p + r" and "p \<le> 2 * r"
  shows "2 * ((q + 1) * p) \<le> 2 * M + p"
  using assms by (simp add: algebra_simps)

lemma round_down_bound:
  fixes q r p M :: nat
  assumes "M = q * p + r"
  shows "2 * (q * p) \<le> 2 * M + p"
  using assms by simp

lemma roundHalfEven_upper: "2 * (roundHalfEven M k * 2 ^ k) \<le> 2 * M + 2 ^ k"
proof -
  define p :: nat where "p = 2 ^ k"
  define q where "q = M div p"
  define r where "r = M mod p"
  have M: "M = q * p + r"
    unfolding q_def r_def by (rule div_mult_mod_eq [symmetric])
  have R: "roundHalfEven M k = (if 2 * r > p \<or> (2 * r = p \<and> odd q) then q + 1 else q)"
    by (simp add: roundHalfEven_def Let_def p_def q_def r_def)
  have "2 * (roundHalfEven M k * p) \<le> 2 * M + p"
  proof (cases "2 * r > p \<or> (2 * r = p \<and> odd q)")
    case True
    have rq: "roundHalfEven M k = q + 1"
      unfolding R using True by (rule if_P)
    from True have "p \<le> 2 * r" by auto
    then show ?thesis
      unfolding rq by (rule round_up_bound [OF M])
  next
    case False
    have rq: "roundHalfEven M k = q"
      unfolding R using False by (rule if_not_P)
    show ?thesis
      unfolding rq by (rule round_down_bound [OF M])
  qed
  then show ?thesis by (simp add: p_def)
qed

lemma rounded_product_below:
  assumes "m < 2 ^ 53" and "m < 2 ^ E"
  shows "roundHalfEven (m * 62) (excessBits (m * 62)) * 2 ^ excessBits (m * 62) < 62 * 2 ^ E"
proof -
  let ?M = "m * 62"
  let ?k = "excessBits ?M"
  have "?M < 62 * 2 ^ 53" using assms(1) by simp
  also have "\<dots> < (2::nat) ^ (53 + 6)" by simp
  finally have "?k \<le> 6" by (rule excessBits_le)
  then have "(2::nat) ^ ?k \<le> 2 ^ 6"
    by (rule power_increasing) simp
  then have k: "(2::nat) ^ ?k \<le> 64" by simp
  have "m + 1 \<le> 2 ^ E" using assms(2) by simp
  then have "(m + 1) * 62 \<le> 2 ^ E * 62"
    by (rule mult_le_mono1)
  then have M: "?M + 62 \<le> 62 * 2 ^ E"
    by (simp add: algebra_simps)
  have "2 * (roundHalfEven ?M ?k * 2 ^ ?k) \<le> 2 * ?M + 2 ^ ?k"
    by (rule roundHalfEven_upper)
  also have "\<dots> \<le> 2 * ?M + 64" using k by simp
  also have "\<dots> < 2 * (?M + 62)" by simp
  also have "\<dots> \<le> 2 * (62 * 2 ^ E)" using M by simp
  finally have "2 * (roundHalfEven ?M ?k * 2 ^ ?k) < 2 * (62 * 2 ^ E)" .
  then show ?thesis by linarith
qed

lemma floorDouble_nonneg: "0 \<le> floorDouble d"
  by (simp add: floorDouble_def pos_imp_zdiv_nonneg_iff)

lemma index_below_62:
  assumes "isDouble d" and "belowOne d"
  shows "floorDouble (timesInt d 62) < 62"
proof (cases "0 \<le> expo d")
  case True
  with assms(2) have m: "mant d = 0" by (simp add: belowOne_def)
  have "excessBits 0 = 0" by (subst excessBits.simps) simp
  then show ?thesis
    using m by (simp add: timesInt_def floorDouble_def roundHalfEven_def)
next
  case False
  define E where "E = nat (- expo d)"
  define k where "k = excessBits (mant d * 62)"
  define R where "R = roundHalfEven (mant d * 62) k"
  have e: "expo d = - int E" using False by (simp add: E_def)
  have mE: "mant d < 2 ^ E"
    using assms(2) False by (simp add: belowOne_def E_def)
  have m53: "mant d < 2 ^ 53"
    using assms(1) by (simp add: isDouble_def)
  have b: "R * 2 ^ k < 62 * 2 ^ E"
    unfolding R_def k_def by (rule rounded_product_below [OF m53 mE])
  have t: "timesInt d 62 = Double R (int k - int E)"
    by (simp add: timesInt_def Let_def R_def k_def e)
  show ?thesis
  proof (cases "E \<le> k")
    case True
    then obtain j where j: "k = j + E" by (metis le_add_diff_inverse2)
    have "R * 2 ^ j * 2 ^ E < 62 * 2 ^ E"
      using b by (simp add: j power_add mult.assoc)
    then have "R * 2 ^ j < 62" by simp
    then have "int R * 2 ^ j < 62"
      by (metis of_nat_less_iff of_nat_mult of_nat_numeral of_nat_power)
    then show ?thesis
      unfolding t by (simp add: floorDouble_def j)
  next
    case False
    then obtain j where j: "E = j + k" and jp: "0 < j"
      by (metis add.commute less_imp_add_positive not_le)
    have "R * 2 ^ k < (62 * 2 ^ j) * 2 ^ k"
      using b by (simp add: j power_add mult.assoc)
    then have "R < 62 * 2 ^ j" by simp
    then have "R div 2 ^ j < 62"
      by (simp add: less_mult_imp_div_less)
    then have "int R div 2 ^ j < 62"
      by (metis of_nat_less_iff of_nat_numeral of_nat_power zdiv_int)
    then show ?thesis
      unfolding t using jp by (simp add: floorDouble_def j)
  qed
qed

text \<open>
  The rounding matters: at the draw \<open>0x1.0842108421084p-1\<close> the exact product with
  62 is below 32 and the double product is 32, so the code takes \<open>g\<close>.
\<close>

lemma rounded_draw:
  "charAt chars (floorDouble (timesInt (Double 0x10842108421084 (- 53)) (length chars))) =
   str ''g''"
proof -
  have "excessBits (0x10842108421084 * 62) = 5"
    by (simp add: excessBits.simps)
  then have "floorDouble (timesInt (Double 0x10842108421084 (- 53)) 62) = 32"
    by (simp add: timesInt_def floorDouble_def roundHalfEven_def Let_def)
  then show ?thesis
    by (simp add: length_chars charAt_def) (simp add: chars_def str_def)
qed

lemma drawn_char:
  assumes "isDouble d" and "belowOne d"
  shows "\<exists>c\<in>set chars. charAt chars (floorDouble (timesInt d (length chars))) = [c]"
proof -
  let ?i = "floorDouble (timesInt d 62)"
  have lo: "0 \<le> ?i" by (rule floorDouble_nonneg)
  have hi: "?i < 62" by (rule index_below_62 [OF assms])
  have "nat ?i < length chars"
    unfolding length_chars using lo hi by linarith
  then have "chars ! nat ?i \<in> set chars"
    by (rule nth_mem)
  moreover have "charAt chars (floorDouble (timesInt d (length chars))) = [chars ! nat ?i]"
    unfolding charAt_def length_chars using lo hi by simp
  ultimately show ?thesis by blast
qed

lemma genLoop_result:
  "(\<forall>k. isDouble (random k) \<and> belowOne (random k)) \<Longrightarrow> i \<le> len \<Longrightarrow>
   length (genLoop random len i draws password) = length password + nat (len - i) \<and>
   set (genLoop random len i draws password) \<subseteq> set password \<union> set chars"
proof (induction random len i draws password rule: genLoop.induct)
  case (1 random len i draws password)
  show ?case
  proof (cases "i < len")
    case True
    have "isDouble (random draws)" and "belowOne (random draws)"
      using "1.prems"(1) by simp_all
    then obtain c where c1: "c \<in> set chars"
      and c2: "charAt chars (floorDouble (timesInt (random draws) (length chars))) = [c]"
      using drawn_char by blast
    have step: "genLoop random len i draws password =
          genLoop random len (i + 1) (draws + 1) (password @ [c])"
      using True by (subst genLoop.simps) (simp only: c2 if_True)
    have le: "i + 1 \<le> len" using True by simp
    have ih: "length (genLoop random len (i + 1) (draws + 1) (password @ [c])) =
            length (password @ [c]) + nat (len - (i + 1)) \<and>
          set (genLoop random len (i + 1) (draws + 1) (password @ [c])) \<subseteq>
            set (password @ [c]) \<union> set chars"
      using "1.IH" [OF True "1.prems"(1) le] unfolding c2 .
    have n: "length (password @ [c]) + nat (len - (i + 1)) = length password + nat (len - i)"
      using True by simp
    have u: "set (password @ [c]) \<union> set chars = set password \<union> set chars"
      using c1 by auto
    show ?thesis
      unfolding step using ih unfolding n u .
  next
    case False
    with "1.prems"(2) have e: "len - i = 0" by simp
    have "genLoop random len i draws password = password"
      using False by (subst genLoop.simps) (simp only: if_False)
    then show ?thesis using e by simp
  qed
qed

lemma alphanumeric_not_reserved:
  "isAsciiLetter c \<or> isDigit c \<Longrightarrow> c \<noteq> 0x24 \<and> c \<noteq> 0x3A \<and> c \<noteq> 0x40 \<and> c \<noteq> 0x2F"
  by (auto simp: isAsciiLetter_def isDigit_def)

text \<open>
  C9: for a length \<open>n \<ge> 0\<close> and draws that are doubles in \<open>[0, 1)\<close>,
  \<open>genAlphanumericPassword\<close> returns \<open>n\<close> code units, each an ASCII letter or
  digit, so none of \<open>$\<close>, \<open>:\<close>, \<open>@\<close>, \<open>/\<close>. In the connection strings that the
  Supabase adapter (for a project id without a colon) and the local Docker adapter
  build from a password of length 24, the expression with which the program itself
  finds user and password in a connection string finds, after \<open>://\<close> and the user,
  exactly the generated password and then the host: no character of the password
  had to be escaped.
\<close>

theorem genAlphanumericPassword_alphanumeric:
  assumes "0 \<le> n" and "\<forall>k. isDouble (random k) \<and> belowOne (random k)"
  shows "length (genAlphanumericPassword random n) = nat n \<and>
         (\<forall>c\<in>set (genAlphanumericPassword random n). isAsciiLetter c \<or> isDigit c) \<and>
         0x24 \<notin> set (genAlphanumericPassword random n) \<and>
         0x3A \<notin> set (genAlphanumericPassword random n) \<and>
         0x40 \<notin> set (genAlphanumericPassword random n) \<and>
         0x2F \<notin> set (genAlphanumericPassword random n) \<and>
         (0x3A \<notin> set projectId \<longrightarrow>
          execMask (supabaseUrl random projectId region) =
            Some (str ''postgresql'',
                  [str ''://'', str ''postgres.'' @ projectId, genAlphanumericPassword random 24],
                  str ''://'' @ (str ''postgres.'' @ projectId) @ [0x3A] @
                    genAlphanumericPassword random 24 @ [0x40],
                  str ''aws-0-'' @ region @ str ''.pooler.supabase.com:6543/postgres'')) \<and>
         execMask (localDockerUrl (genAlphanumericPassword random)) =
           Some (str ''postgresql'',
                 [str ''://'', str ''postgres'', genAlphanumericPassword random 24],
                 str ''://'' @ str ''postgres'' @ [0x3A] @
                   genAlphanumericPassword random 24 @ [0x40],
                 str ''localhost:5432/zerostarter'')"
proof -
  let ?pw = "genAlphanumericPassword random n"
  have r: "length ?pw = nat n \<and> set ?pw \<subseteq> set chars"
    using genLoop_result [of random 0 n 0 "[]"] assms
    by (simp add: genAlphanumericPassword_def)
  then have al: "\<forall>c\<in>set ?pw. isAsciiLetter c \<or> isDigit c"
    using chars_alphanumeric by blast
  let ?pw24 = "genAlphanumericPassword random 24"
  have r24: "length ?pw24 = 24 \<and> set ?pw24 \<subseteq> set chars"
    using genLoop_result [of random 0 24 0 "[]"] assms(2)
    by (simp add: genAlphanumericPassword_def)
  then have al24: "\<forall>c\<in>set ?pw24. isAsciiLetter c \<or> isDigit c"
    using chars_alphanumeric by blast
  have ne: "?pw24 \<noteq> []" using r24 by auto
  have at: "0x40 \<notin> set ?pw24"
    using al24 alphanumeric_not_reserved by blast
  have sc: "0x3A \<notin> set (str ''postgresql'')" by (simp add: str_def)
  have ld: "localDockerUrl (genAlphanumericPassword random) =
      str ''postgresql'' @ str ''://'' @ str ''postgres'' @ str '':'' @ ?pw24 @ str ''@'' @
      str ''localhost:5432/zerostarter''"
    by (simp add: localDockerUrl_def str_def)
  have u1: "str ''postgres'' \<noteq> [] \<and> 0x3A \<notin> set (str ''postgres'')"
    by (simp add: str_def)
  have l: "execMask (localDockerUrl (genAlphanumericPassword random)) =
           Some (str ''postgresql'', [str ''://'', str ''postgres'', ?pw24],
                 str ''://'' @ str ''postgres'' @ [0x3A] @ ?pw24 @ [0x40],
                 str ''localhost:5432/zerostarter'')"
    unfolding ld using execMask_userinfo [OF sc _ _ ne at] u1 by blast
  have s: "0x3A \<notin> set projectId \<longrightarrow>
          execMask (supabaseUrl random projectId region) =
            Some (str ''postgresql'', [str ''://'', str ''postgres.'' @ projectId, ?pw24],
                  str ''://'' @ (str ''postgres.'' @ projectId) @ [0x3A] @ ?pw24 @ [0x40],
                  str ''aws-0-'' @ region @ str ''.pooler.supabase.com:6543/postgres'')"
  proof
    assume p: "0x3A \<notin> set projectId"
    have su: "supabaseUrl random projectId region =
        str ''postgresql'' @ str ''://'' @ (str ''postgres.'' @ projectId) @ str '':'' @ ?pw24 @
        str ''@'' @ (str ''aws-0-'' @ region @ str ''.pooler.supabase.com:6543/postgres'')"
      by (simp add: supabaseUrl_def str_def)
    have u2: "str ''postgres.'' @ projectId \<noteq> [] \<and> 0x3A \<notin> set (str ''postgres.'' @ projectId)"
      using p by (simp add: str_def)
    show "execMask (supabaseUrl random projectId region) =
            Some (str ''postgresql'', [str ''://'', str ''postgres.'' @ projectId, ?pw24],
                  str ''://'' @ (str ''postgres.'' @ projectId) @ [0x3A] @ ?pw24 @ [0x40],
                  str ''aws-0-'' @ region @ str ''.pooler.supabase.com:6543/postgres'')"
      unfolding su using execMask_userinfo [OF sc _ _ ne at] u2 by blast
  qed
  show ?thesis
    using r al alphanumeric_not_reserved l s by blast
qed

theorem genAlphanumericPassword_alphanumeric_witness:
  "length (genAlphanumericPassword (\<lambda>k. Double 1 (- 1)) 24) = 24 \<and>
   0x24 \<notin> set (genAlphanumericPassword (\<lambda>k. Double 1 (- 1)) 24) \<and>
   0x40 \<notin> set (genAlphanumericPassword (\<lambda>k. Double 1 (- 1)) 24) \<and>
   execMask (supabaseUrl (\<lambda>k. Double 1 (- 1)) (str ''abcd'') (str ''eu-west-1'')) =
     Some (str ''postgresql'',
           [str ''://'', str ''postgres.'' @ str ''abcd'',
            genAlphanumericPassword (\<lambda>k. Double 1 (- 1)) 24],
           str ''://'' @ (str ''postgres.'' @ str ''abcd'') @ [0x3A] @
             genAlphanumericPassword (\<lambda>k. Double 1 (- 1)) 24 @ [0x40],
           str ''aws-0-'' @ str ''eu-west-1'' @ str ''.pooler.supabase.com:6543/postgres'')"
proof -
  have a: "(0::int) \<le> 24" by simp
  have b: "\<forall>k::nat. isDouble ((\<lambda>k. Double 1 (- 1)) k) \<and> belowOne ((\<lambda>k. Double 1 (- 1)) k)"
    by (simp add: isDouble_def belowOne_def)
  have c: "0x3A \<notin> set (str ''abcd'')" by (simp add: str_def)
  show ?thesis
    using genAlphanumericPassword_alphanumeric [OF a b, of "str ''abcd''" "str ''eu-west-1''"] c
    by simp
qed


end
